theory Spec2Isabelle
  imports Complex_Main "HOL-Library.Word" "HOL-Library.Log_Nat"
begin

unbundle bit_operations_syntax

section \<open>Data model\<close>

text \<open>
  A pixel buffer is the \<^verbatim>\<open>Uint8ClampedArray\<close> of an \<^verbatim>\<open>ImageData\<close>: four bytes per pixel
  (R, G, B, A), row-major. Its length is \<open>4 * width * height\<close>; \<open>wellFormed\<close> states this
  invariant of \<^verbatim>\<open>ImageData\<close>, together with the positive dimensions its constructor enforces.
\<close>

type_synonym byte = "8 word"

record ImageData =
  width :: nat
  height :: nat
  data :: "byte list"

definition wellFormed :: "ImageData \<Rightarrow> bool" where
  "wellFormed img \<longleftrightarrow>
     0 < width img \<and> 0 < height img \<and> length (data img) = 4 * width img * height img"

text \<open>The only exception the quantizer can raise: a property read on \<^verbatim>\<open>undefined\<close>.\<close>

datatype error = TypeError

text \<open>A colour sample \<^verbatim>\<open>{ r, g, b, count }\<close> of the median-cut colour map.\<close>

record color =
  c_r :: int
  c_g :: int
  c_b :: int
  c_count :: nat

text \<open>A palette entry \<^verbatim>\<open>{ r, g, b }\<close>.\<close>

record rgb =
  p_r :: int
  p_g :: int
  p_b :: int

definition black :: rgb where
  "black = \<lparr>p_r = 0, p_g = 0, p_b = 0\<rparr>"

text \<open>A median-cut box: its colour samples and its bounding range per channel.\<close>

record box =
  colors :: "color list"
  rMin :: int
  rMax :: int
  gMin :: int
  gMax :: int
  bMin :: int
  bMax :: int

datatype axis = AxisR | AxisG | AxisB

section \<open>Median-cut palette builder\<close>

text \<open>
  The colour map of \<^verbatim>\<open>medianCutQuantize\<close>: keyed by \<^verbatim>\<open>(r << 16) | (g << 8) | b\<close>, which is
  injective on bytes, so a key is found exactly when the three channels agree. The list keeps
  the order of first appearance, as the array \<^verbatim>\<open>colors\<close> does.
\<close>

fun addColor :: "int \<Rightarrow> int \<Rightarrow> int \<Rightarrow> color list \<Rightarrow> color list" where
  "addColor r g b [] = [\<lparr>c_r = r, c_g = g, c_b = b, c_count = 1\<rparr>]"
| "addColor r g b (c # cs) =
     (if c_r c = r \<and> c_g c = g \<and> c_b c = b then c\<lparr>c_count := c_count c + 1\<rparr> # cs
      else c # addColor r g b cs)"

text \<open>The scan over the buffer, four bytes at a time, skipping pixels with alpha below 128.\<close>

fun collectColors :: "byte list \<Rightarrow> color list \<Rightarrow> color list" where
  "collectColors (r # g # b # a # rest) acc =
     (if a < 128 then collectColors rest acc
      else collectColors rest (addColor (uint r) (uint g) (uint b) acc))"
| "collectColors _ acc = acc"

definition rRange :: "box \<Rightarrow> int" where "rRange bx = rMax bx - rMin bx"
definition gRange :: "box \<Rightarrow> int" where "gRange bx = gMax bx - gMin bx"
definition bRange :: "box \<Rightarrow> int" where "bRange bx = bMax bx - bMin bx"

definition volume :: "box \<Rightarrow> int" where
  "volume bx = rRange bx * gRange bx * bRange bx"

text \<open>
  First search: the first box of greatest volume among the boxes with more than one sample
  and a volume above 0. \<open>None\<close> is the source's \<^verbatim>\<open>largestBoxIndex === -1\<close>.
\<close>

fun largestBoxLoop :: "box list \<Rightarrow> nat \<Rightarrow> nat option \<Rightarrow> int \<Rightarrow> nat option" where
  "largestBoxLoop [] i largestBoxIndex largestVolume = largestBoxIndex"
| "largestBoxLoop (bx # rest) i largestBoxIndex largestVolume =
     (if length (colors bx) \<le> 1 then largestBoxLoop rest (i + 1) largestBoxIndex largestVolume
      else if volume bx > largestVolume then largestBoxLoop rest (i + 1) (Some i) (volume bx)
      else largestBoxLoop rest (i + 1) largestBoxIndex largestVolume)"

text \<open>Fallback search: the first box with a range above 1 on some channel.\<close>

fun splittableLoop :: "box list \<Rightarrow> nat \<Rightarrow> nat option" where
  "splittableLoop [] i = None"
| "splittableLoop (bx # rest) i =
     (if rRange bx > 1 \<or> gRange bx > 1 \<or> bRange bx > 1 then Some i
      else splittableLoop rest (i + 1))"

text \<open>
  Last resort: copy boxes round-robin until there are \<open>maxColors - 1\<close> of them.
  \<open>existingBoxes\<close> is the number of boxes when the filling starts (at least 1).
\<close>

function duplicateLoop :: "nat \<Rightarrow> nat \<Rightarrow> box list \<Rightarrow> box list" where
  "duplicateLoop maxColors existingBoxes boxes =
     (if length boxes < maxColors - 1
      then duplicateLoop maxColors existingBoxes
             (boxes @ [boxes ! (length boxes mod existingBoxes)])
      else boxes)"
  by pat_completeness auto
termination
  by (relation "measure (\<lambda>(maxColors, existingBoxes, boxes). maxColors - 1 - length boxes)") auto

definition sortBy :: "box \<Rightarrow> axis" where
  "sortBy bx =
     (if rRange bx \<ge> gRange bx \<and> rRange bx \<ge> bRange bx then AxisR
      else if gRange bx \<ge> bRange bx then AxisG
      else AxisB)"

fun channel :: "axis \<Rightarrow> color \<Rightarrow> int" where
  "channel AxisR c = c_r c"
| "channel AxisG c = c_g c"
| "channel AxisB c = c_b c"

fun axisMin :: "axis \<Rightarrow> box \<Rightarrow> int" where
  "axisMin AxisR bx = rMin bx"
| "axisMin AxisG bx = gMin bx"
| "axisMin AxisB bx = bMin bx"

fun axisMax :: "axis \<Rightarrow> box \<Rightarrow> int" where
  "axisMax AxisR bx = rMax bx"
| "axisMax AxisG bx = gMax bx"
| "axisMax AxisB bx = bMax bx"

fun setAxisMin :: "axis \<Rightarrow> int \<Rightarrow> box \<Rightarrow> box" where
  "setAxisMin AxisR v bx = bx\<lparr>rMin := v\<rparr>"
| "setAxisMin AxisG v bx = bx\<lparr>gMin := v\<rparr>"
| "setAxisMin AxisB v bx = bx\<lparr>bMin := v\<rparr>"

fun setAxisMax :: "axis \<Rightarrow> int \<Rightarrow> box \<Rightarrow> box" where
  "setAxisMax AxisR v bx = bx\<lparr>rMax := v\<rparr>"
| "setAxisMax AxisG v bx = bx\<lparr>gMax := v\<rparr>"
| "setAxisMax AxisB v bx = bx\<lparr>bMax := v\<rparr>"

text \<open>
  The weighted median of the sorted samples: the first index at which the running count
  reaches half of the total (\<^verbatim>\<open>medianCount >= totalCount / 2\<close>, that is
  \<open>2 * medianCount \<ge> totalCount\<close>); 0 when the loop ends without a break.
\<close>

fun medianLoop :: "color list \<Rightarrow> nat \<Rightarrow> nat \<Rightarrow> nat \<Rightarrow> nat" where
  "medianLoop [] i medianCount totalCount = 0"
| "medianLoop (c # cs) i medianCount totalCount =
     (if 2 * (medianCount + c_count c) \<ge> totalCount then i
      else medianLoop cs (i + 1) (medianCount + c_count c) totalCount)"

text \<open>
  Splitting the samples of a box along an axis. A box with at most one sample is cut at the
  midpoint of its range and the one sample goes to both sides; reading that sample in an
  empty box is the read of \<^verbatim>\<open>color.r\<close> on \<^verbatim>\<open>undefined\<close>, a \<^verbatim>\<open>TypeError\<close>. A box with more
  samples is sorted (\<^verbatim>\<open>Array.prototype.sort\<close> is stable, as \<open>sort_key\<close> is) and cut after
  its weighted median.
\<close>

definition splitColors :: "box \<Rightarrow> axis \<Rightarrow> error + (color list \<times> color list)" where
  "splitColors bx ax =
     (if length (colors bx) \<le> 1 then
        (case colors bx of
           [] \<Rightarrow> Inl TypeError
         | c # _ \<Rightarrow>
             (let midpoint = (axisMin ax bx + axisMax ax bx) div 2;
                  leftColors = (if channel ax c \<le> midpoint then [c] else []);
                  rightColors = (if channel ax c > midpoint then [c] else [])
              in if leftColors = [] \<and> rightColors = [] then Inr ([c], [c])
                 else if leftColors \<noteq> [] \<and> rightColors = [] then Inr (leftColors, [c])
                 else if leftColors = [] \<and> rightColors \<noteq> [] then Inr ([c], rightColors)
                 else Inr (leftColors, rightColors)))
      else
        (let sorted = sort_key (channel ax) (colors bx);
             totalCount = sum_list (map c_count sorted);
             medianIndex = medianLoop sorted 0 0 totalCount
         in Inr (take (medianIndex + 1) sorted, drop (medianIndex + 1) sorted)))"

text \<open>
  The two children: both start as copies of the parent's bounds; on the split axis the left
  child's maximum becomes that of its last sample and the right child's minimum that of its
  first sample, when the child has samples.
\<close>

definition childBoxes :: "box \<Rightarrow> axis \<Rightarrow> color list \<Rightarrow> color list \<Rightarrow> box \<times> box" where
  "childBoxes bx ax leftColors rightColors =
     (let leftBox = bx\<lparr>colors := leftColors\<rparr>;
          rightBox = bx\<lparr>colors := rightColors\<rparr>
      in ((if leftColors \<noteq> [] then setAxisMax ax (channel ax (last leftColors)) leftBox
           else leftBox),
          (if rightColors \<noteq> [] then setAxisMin ax (channel ax (hd rightColors)) rightBox
           else rightBox)))"

definition splitBox :: "box \<Rightarrow> error + (box \<times> box)" where
  "splitBox bx =
     (case splitColors bx (sortBy bx) of
        Inl e \<Rightarrow> Inl e
      | Inr (leftColors, rightColors) \<Rightarrow> Inr (childBoxes bx (sortBy bx) leftColors rightColors))"

text \<open>\<^verbatim>\<open>boxes.splice(i, 1, leftBox, rightBox)\<close>\<close>

definition spliceBoxes :: "box list \<Rightarrow> nat \<Rightarrow> box \<Rightarrow> box \<Rightarrow> box list" where
  "spliceBoxes boxes i leftBox rightBox = take i boxes @ [leftBox, rightBox] @ drop (i + 1) boxes"

text \<open>The box chosen in one round of the main loop; \<open>None\<close> when no box can be split.\<close>

definition chooseBox :: "box list \<Rightarrow> nat option" where
  "chooseBox boxes =
     (case largestBoxLoop boxes 0 None 0 of
        Some i \<Rightarrow> Some i
      | None \<Rightarrow> splittableLoop boxes 0)"

function splitLoop :: "nat \<Rightarrow> box list \<Rightarrow> error + box list" where
  "splitLoop maxColors boxes =
     (if length boxes < maxColors - 1 then
        (case chooseBox boxes of
           None \<Rightarrow> Inr (duplicateLoop maxColors (length boxes) boxes)
         | Some i \<Rightarrow>
             (case splitBox (boxes ! i) of
                Inl e \<Rightarrow> Inl e
              | Inr (leftBox, rightBox) \<Rightarrow> splitLoop maxColors (spliceBoxes boxes i leftBox rightBox)))
      else Inr boxes)"
  by pat_completeness auto
termination
proof (relation "measure (\<lambda>(maxColors, boxes). maxColors - 1 - length boxes)")
  show "wf (measure (\<lambda>(maxColors, boxes). maxColors - 1 - length boxes))" by simp
next
  fix maxColors :: nat and boxes :: "box list" and i x leftBox rightBox
  assume "length boxes < maxColors - 1"
  moreover have "length boxes < length (spliceBoxes boxes i leftBox rightBox)"
    unfolding spliceBoxes_def by (cases "i < length boxes") auto
  ultimately show "((maxColors, spliceBoxes boxes i leftBox rightBox), (maxColors, boxes))
             \<in> measure (\<lambda>(maxColors, boxes). maxColors - 1 - length boxes)"
    by simp
qed

text \<open>
  The average of a box, weighted by count. \<^verbatim>\<open>Math.round(t / n)\<close> rounds halves up; for
  integers \<open>t \<ge> 0\<close> and \<open>n > 0\<close> below \<open>2^44\<close> (the pixel count of any image that fits in
  memory) the double division cannot move a quotient onto or across a half, so the result
  is \<open>(2 t + n) div (2 n)\<close>.
\<close>

definition roundDiv :: "int \<Rightarrow> int \<Rightarrow> int" where
  "roundDiv t n = (2 * t + n) div (2 * n)"

definition averageColor :: "color list \<Rightarrow> rgb" where
  "averageColor cs =
     (let totalR = sum_list (map (\<lambda>c. c_r c * int (c_count c)) cs);
          totalG = sum_list (map (\<lambda>c. c_g c * int (c_count c)) cs);
          totalB = sum_list (map (\<lambda>c. c_b c * int (c_count c)) cs);
          totalCount = int (sum_list (map c_count cs))
      in \<lparr>p_r = roundDiv totalR totalCount, p_g = roundDiv totalG totalCount,
          p_b = roundDiv totalB totalCount\<rparr>)"

fun paletteLoop :: "nat \<Rightarrow> box list \<Rightarrow> rgb list \<Rightarrow> rgb list" where
  "paletteLoop maxColors [] palette = palette"
| "paletteLoop maxColors (bx # rest) palette =
     (if length palette \<ge> maxColors then palette
      else if colors bx = [] then paletteLoop maxColors rest (palette @ [black])
      else if averageColor (colors bx) = black then paletteLoop maxColors rest palette
      else paletteLoop maxColors rest (palette @ [averageColor (colors bx)]))"

definition fillPalette :: "nat \<Rightarrow> rgb list \<Rightarrow> rgb list" where
  "fillPalette maxColors palette =
     take maxColors (palette @ replicate (maxColors - length palette) black)"

definition initialBox :: "color list \<Rightarrow> box" where
  "initialBox cs =
     \<lparr>colors = cs, rMin = 0, rMax = 255, gMin = 0, gMax = 255, bMin = 0, bMax = 255\<rparr>"

definition medianCutQuantize :: "byte list \<Rightarrow> nat \<Rightarrow> error + rgb list" where
  "medianCutQuantize d maxColors =
     (let cs = collectColors d []
      in if cs = [] then Inr (replicate maxColors black)
         else (case splitLoop maxColors [initialBox cs] of
                 Inl e \<Rightarrow> Inl e
               | Inr boxes \<Rightarrow> Inr (fillPalette maxColors (paletteLoop maxColors boxes [black]))))"

section \<open>Colour distance and nearest-colour matcher\<close>

text \<open>
  JavaScript numbers are IEEE-754 binary64. A finite double is a rational, so the model
  computes with \<open>rat\<close> and rounds after every operation: \<open>roundToDouble\<close> is rounding to
  nearest, ties to even, on a 53-bit significand. Overflow and subnormal numbers are not
  modelled: every value of \<^verbatim>\<open>perceptualDistance\<close> on integer channels lies between \<open>0.11\<close>
  and \<open>2^17\<close>, or is \<open>0\<close>.
\<close>

definition pow2 :: "int \<Rightarrow> rat" where
  "pow2 k = (if 0 \<le> k then 2 ^ nat k else 1 / 2 ^ nat (- k))"

text \<open>\<open>\<lfloor>log\<^sub>2 a\<rfloor>\<close> for a positive rational \<open>a\<close>.\<close>

definition ilog2 :: "rat \<Rightarrow> int" where
  "ilog2 a = (let k = bitlen (fst (quotient_of a)) - bitlen (snd (quotient_of a))
              in if pow2 k \<le> a then k else k - 1)"

definition roundToDouble :: "rat \<Rightarrow> rat" where
  "roundToDouble x =
     (if x = 0 then 0
      else (let a = \<bar>x\<bar>;
                u = pow2 (ilog2 a - 52);
                n = \<lfloor>a / u\<rfloor>;
                f = a / u - of_int n;
                m = (if f > 1 / 2 \<or> (f = 1 / 2 \<and> odd n) then n + 1 else n)
            in sgn x * of_int m * u))"

text \<open>Integer square root, rounded down.\<close>

function isqrt :: "int \<Rightarrow> int" where
  "isqrt n = (if n \<le> 0 then 0
              else (let r = 2 * isqrt (n div 4) in if (r + 1) * (r + 1) \<le> n then r + 1 else r))"
  by pat_completeness auto
termination
  by (relation "measure nat") auto

text \<open>
  \<^verbatim>\<open>Math.sqrt\<close>: the correctly rounded square root of a double. The argument is scaled by an
  even power of two to an integer \<open>t\<close> of at least 113 bits; its integer root \<open>r\<close> then has
  4 bits more than a significand, so every number strictly between \<open>r\<close> and \<open>r + 1\<close>
  rounds as the exact root does.
\<close>

definition sqrtDouble :: "rat \<Rightarrow> rat" where
  "sqrtDouble x =
     (if x \<le> 0 then 0
      else (let s = 56 - ilog2 x div 2;
                t = \<lfloor>x * pow2 (2 * s)\<rfloor>;
                r = isqrt t
            in roundToDouble ((of_int r + (if r * r = t then 0 else 1 / 2)) * pow2 (- s))))"

text \<open>
  \<^verbatim>\<open>Math.sqrt(0.3 * dr * dr + 0.59 * dg * dg + 0.11 * db * db)\<close>, evaluated left to right:
  the literals are the doubles nearest to \<open>0.3\<close>, \<open>0.59\<close> and \<open>0.11\<close>, and each product
  and each sum is rounded.
\<close>

definition perceptualDistance :: "int \<Rightarrow> int \<Rightarrow> int \<Rightarrow> int \<Rightarrow> int \<Rightarrow> int \<Rightarrow> rat" where
  "perceptualDistance r1 g1 b1 r2 g2 b2 =
     (let dr = of_int (r1 - r2); dg = of_int (g1 - g2); db = of_int (b1 - b2);
          tr = roundToDouble (roundToDouble (roundToDouble (3 / 10) * dr) * dr);
          tg = roundToDouble (roundToDouble (roundToDouble (59 / 100) * dg) * dg);
          tb = roundToDouble (roundToDouble (roundToDouble (11 / 100) * db) * db)
      in sqrtDouble (roundToDouble (roundToDouble (tr + tg) + tb)))"

text \<open>
  The linear scan of \<^verbatim>\<open>findClosestColor\<close>. \<open>minDist = None\<close> is the initial \<^verbatim>\<open>Infinity\<close>,
  below which every distance lies.
\<close>

fun findClosestLoop ::
  "rgb list \<Rightarrow> nat \<Rightarrow> int \<Rightarrow> int \<Rightarrow> int \<Rightarrow> rat option \<Rightarrow> nat \<Rightarrow> nat" where
  "findClosestLoop [] i r g b minDist bestIndex = bestIndex"
| "findClosestLoop (p # ps) i r g b minDist bestIndex =
     (let dist = perceptualDistance r g b (p_r p) (p_g p) (p_b p)
      in if (case minDist of None \<Rightarrow> True | Some m \<Rightarrow> dist < m)
         then findClosestLoop ps (i + 1) r g b (Some dist) i
         else findClosestLoop ps (i + 1) r g b minDist bestIndex)"

definition findClosestColor :: "rgb list \<Rightarrow> int \<Rightarrow> int \<Rightarrow> int \<Rightarrow> nat" where
  "findClosestColor colorArray r g b = findClosestLoop colorArray 0 r g b None 0"

definition build8BitPalette :: "byte list \<Rightarrow> error + (rgb list \<times> (int \<Rightarrow> int \<Rightarrow> int \<Rightarrow> nat))" where
  "build8BitPalette d =
     (case medianCutQuantize d 256 of
        Inl e \<Rightarrow> Inl e
      | Inr colorArray \<Rightarrow> Inr (colorArray, findClosestColor colorArray))"

definition build4BitPalette :: "byte list \<Rightarrow> error + (rgb list \<times> (int \<Rightarrow> int \<Rightarrow> int \<Rightarrow> nat))" where
  "build4BitPalette d =
     (case medianCutQuantize d 16 of
        Inl e \<Rightarrow> Inl e
      | Inr colorArray \<Rightarrow> Inr (colorArray, findClosestColor colorArray))"

section \<open>Floyd-Steinberg dithering\<close>

text \<open>
  The ditherer allocates a typed array and mutates it, so it runs on an explicit store:
  the typed arrays by address. \<^verbatim>\<open>new Uint8ClampedArray(data)\<close> allocates a fresh array
  with the contents of \<open>data\<close>. Reads and writes are those of an index inside the array,
  which holds for the buffer of an \<^verbatim>\<open>ImageData\<close> and coordinates inside the image.
\<close>

type_synonym store = "byte list list"

definition allocCopy :: "store \<Rightarrow> nat \<Rightarrow> store \<times> nat" where
  "allocCopy s a = (s @ [s ! a], length s)"

definition readByte :: "store \<Rightarrow> nat \<Rightarrow> nat \<Rightarrow> int" where
  "readByte s a i = uint (s ! a ! i)"

definition writeByte :: "store \<Rightarrow> nat \<Rightarrow> nat \<Rightarrow> byte \<Rightarrow> store" where
  "writeByte s a i v = s[a := (s ! a)[i := v]]"

text \<open>
  Storing a number into a \<^verbatim>\<open>Uint8ClampedArray\<close>: clamp to \<open>0..255\<close> and round to the
  nearest integer, ties to even.
\<close>

definition toUint8Clamp :: "rat \<Rightarrow> byte" where
  "toUint8Clamp x =
     (if x \<le> 0 then 0
      else if x \<ge> 255 then 255
      else (let f = \<lfloor>x\<rfloor>
            in if of_int f + 1 / 2 < x then word_of_int (f + 1)
               else if x < of_int f + 1 / 2 then word_of_int f
               else if even f then word_of_int f else word_of_int (f + 1)))"

text \<open>
  \<^verbatim>\<open>distributeError(x1, y1, weight)\<close> on the array at address \<open>dd\<close>. The weights are
  sixteenths and the errors are integers, so the double arithmetic is exact.
\<close>

definition addError :: "store \<Rightarrow> nat \<Rightarrow> nat \<Rightarrow> int \<Rightarrow> rat \<Rightarrow> store" where
  "addError s dd idx err weight =
     writeByte s dd idx
       (toUint8Clamp (max 0 (min 255 (of_int (readByte s dd idx) + of_int err * weight))))"

definition distributeError ::
  "store \<Rightarrow> nat \<Rightarrow> nat \<Rightarrow> nat \<Rightarrow> int \<Rightarrow> int \<Rightarrow> int \<Rightarrow> int \<Rightarrow> int \<Rightarrow> rat \<Rightarrow> store" where
  "distributeError s dd w h errR errG errB x1 y1 weight =
     (if x1 \<ge> 0 \<and> x1 < int w \<and> y1 \<ge> 0 \<and> y1 < int h then
        (let idx = nat ((y1 * int w + x1) * 4)
         in if readByte s dd (idx + 3) \<ge> 128
            then addError (addError (addError s dd idx errR weight) dd (idx + 1) errG weight)
                   dd (idx + 2) errB weight
            else s)
      else s)"

text \<open>
  One pixel of the double loop. \<^verbatim>\<open>colorArray[colorIndex]\<close> outside the palette is
  \<^verbatim>\<open>undefined\<close>, and reading its \<^verbatim>\<open>r\<close> raises.
\<close>

definition ditherPixel ::
  "store \<Rightarrow> nat \<Rightarrow> nat \<Rightarrow> nat \<Rightarrow> rgb list \<Rightarrow> (int \<Rightarrow> int \<Rightarrow> int \<Rightarrow> nat) \<Rightarrow> nat \<Rightarrow> nat
     \<Rightarrow> error + store" where
  "ditherPixel s dd w h colorArray findClosest x y =
     (let i = (y * w + x) * 4
      in if readByte s dd (i + 3) < 128 then Inr s
         else
           (let oldR = readByte s dd i;
                oldG = readByte s dd (i + 1);
                oldB = readByte s dd (i + 2);
                colorIndex = findClosest oldR oldG oldB
            in if colorIndex < length colorArray then
                 (let paletteColor = colorArray ! colorIndex;
                      newR = p_r paletteColor;
                      newG = p_g paletteColor;
                      newB = p_b paletteColor;
                      s1 = writeByte s dd i (toUint8Clamp (of_int newR));
                      s2 = writeByte s1 dd (i + 1) (toUint8Clamp (of_int newG));
                      s3 = writeByte s2 dd (i + 2) (toUint8Clamp (of_int newB));
                      errR = oldR - newR;
                      errG = oldG - newG;
                      errB = oldB - newB;
                      s4 = distributeError s3 dd w h errR errG errB (int x + 1) (int y) (7 / 16);
                      s5 = distributeError s4 dd w h errR errG errB (int x - 1) (int y + 1) (3 / 16);
                      s6 = distributeError s5 dd w h errR errG errB (int x) (int y + 1) (5 / 16)
                  in Inr (distributeError s6 dd w h errR errG errB (int x + 1) (int y + 1) (1 / 16)))
               else Inl TypeError))"

fun ditherRow ::
  "nat \<Rightarrow> nat \<Rightarrow> nat \<Rightarrow> rgb list \<Rightarrow> (int \<Rightarrow> int \<Rightarrow> int \<Rightarrow> nat) \<Rightarrow> nat \<Rightarrow> nat list \<Rightarrow> store
     \<Rightarrow> error + store" where
  "ditherRow dd w h colorArray findClosest y [] s = Inr s"
| "ditherRow dd w h colorArray findClosest y (x # xs) s =
     (case ditherPixel s dd w h colorArray findClosest x y of
        Inl e \<Rightarrow> Inl e
      | Inr s' \<Rightarrow> ditherRow dd w h colorArray findClosest y xs s')"

fun ditherRows ::
  "nat \<Rightarrow> nat \<Rightarrow> nat \<Rightarrow> rgb list \<Rightarrow> (int \<Rightarrow> int \<Rightarrow> int \<Rightarrow> nat) \<Rightarrow> nat list \<Rightarrow> store
     \<Rightarrow> error + store" where
  "ditherRows dd w h colorArray findClosest [] s = Inr s"
| "ditherRows dd w h colorArray findClosest (y # ys) s =
     (case ditherRow dd w h colorArray findClosest y [0..<w] s of
        Inl e \<Rightarrow> Inl e
      | Inr s' \<Rightarrow> ditherRows dd w h colorArray findClosest ys s')"

text \<open>
  \<^verbatim>\<open>applyFloydSteinbergDithering(data, width, height, colorArray, findClosestColor)\<close>, with
  \<open>data\<close> the array at address \<open>a\<close>: the new store and the address of the returned array.
\<close>

definition applyFloydSteinbergDithering ::
  "store \<Rightarrow> nat \<Rightarrow> nat \<Rightarrow> nat \<Rightarrow> rgb list \<Rightarrow> (int \<Rightarrow> int \<Rightarrow> int \<Rightarrow> nat) \<Rightarrow> error + (store \<times> nat)" where
  "applyFloydSteinbergDithering s a w h colorArray findClosest =
     (case allocCopy s a of
        (s0, ditheredData) \<Rightarrow>
          (case ditherRows ditheredData w h colorArray findClosest [0..<h] s0 of
             Inl e \<Rightarrow> Inl e
           | Inr s' \<Rightarrow> Inr (s', ditheredData)))"

text \<open>
  A caller holding the buffer as a value: the buffer is the only array of a store, and the
  result is the contents of the returned array.
\<close>

definition ditheredData ::
  "byte list \<Rightarrow> nat \<Rightarrow> nat \<Rightarrow> rgb list \<Rightarrow> (int \<Rightarrow> int \<Rightarrow> int \<Rightarrow> nat) \<Rightarrow> error + byte list" where
  "ditheredData d w h colorArray findClosest =
     (case applyFloydSteinbergDithering [d] 0 w h colorArray findClosest of
        Inl e \<Rightarrow> Inl e
      | Inr (s', dd) \<Rightarrow> Inr (s' ! dd))"

section \<open>Pixel requantizer\<close>

text \<open>
  \<^verbatim>\<open>quantizeImageData\<close> writes the four bytes of every pixel into a new, zero-filled
  \<^verbatim>\<open>ImageData\<close>. The stores into its \<^verbatim>\<open>Uint8ClampedArray\<close> clamp.
\<close>

definition quantizePixel ::
  "byte list \<Rightarrow> rgb list \<Rightarrow> (int \<Rightarrow> int \<Rightarrow> int \<Rightarrow> nat) \<Rightarrow> nat \<Rightarrow> byte list \<Rightarrow> error + byte list" where
  "quantizePixel d colorArray findClosest i q =
     (if d ! (i + 3) < 128 then
        Inr (q[i := 0, i + 1 := 0, i + 2 := 0, i + 3 := d ! (i + 3)])
      else
        (let colorIndex = findClosest (uint (d ! i)) (uint (d ! (i + 1))) (uint (d ! (i + 2)))
         in if colorIndex < length colorArray then
              (let c = colorArray ! colorIndex
               in Inr (q[i := toUint8Clamp (of_int (p_r c)),
                         i + 1 := toUint8Clamp (of_int (p_g c)),
                         i + 2 := toUint8Clamp (of_int (p_b c)),
                         i + 3 := d ! (i + 3)]))
            else Inl TypeError))"

fun quantizeRow ::
  "byte list \<Rightarrow> nat \<Rightarrow> rgb list \<Rightarrow> (int \<Rightarrow> int \<Rightarrow> int \<Rightarrow> nat) \<Rightarrow> nat \<Rightarrow> nat list \<Rightarrow> byte list
     \<Rightarrow> error + byte list" where
  "quantizeRow d w colorArray findClosest y [] q = Inr q"
| "quantizeRow d w colorArray findClosest y (x # xs) q =
     (case quantizePixel d colorArray findClosest ((y * w + x) * 4) q of
        Inl e \<Rightarrow> Inl e
      | Inr q' \<Rightarrow> quantizeRow d w colorArray findClosest y xs q')"

fun quantizeRows ::
  "byte list \<Rightarrow> nat \<Rightarrow> rgb list \<Rightarrow> (int \<Rightarrow> int \<Rightarrow> int \<Rightarrow> nat) \<Rightarrow> nat list \<Rightarrow> byte list
     \<Rightarrow> error + byte list" where
  "quantizeRows d w colorArray findClosest [] q = Inr q"
| "quantizeRows d w colorArray findClosest (y # ys) q =
     (case quantizeRow d w colorArray findClosest y [0..<w] q of
        Inl e \<Rightarrow> Inl e
      | Inr q' \<Rightarrow> quantizeRows d w colorArray findClosest ys q')"

definition quantizeImageData ::
  "ImageData \<Rightarrow> rgb list \<Rightarrow> (int \<Rightarrow> int \<Rightarrow> int \<Rightarrow> nat) \<Rightarrow> error + ImageData" where
  "quantizeImageData img colorArray findClosest =
     (case quantizeRows (data img) (width img) colorArray findClosest [0..<height img]
             (replicate (4 * width img * height img) 0) of
        Inl e \<Rightarrow> Inl e
      | Inr q \<Rightarrow> Inr \<lparr>width = width img, height = height img, data = q\<rparr>)"

section \<open>BMP encoders\<close>

text \<open>
  The encoders fill an \<^verbatim>\<open>ArrayBuffer\<close> of \<open>fileSize\<close> bytes through a \<^verbatim>\<open>DataView\<close>: the
  header fields at their fixed offsets, which tile the bytes \<open>0..53\<close>, then one byte after
  the other at \<^verbatim>\<open>offset++\<close>. The writes cover the buffer exactly once and in order, so the
  file is the concatenation of what is written. \<^verbatim>\<open>setUint8\<close>, \<^verbatim>\<open>setUint16\<close> and
  \<^verbatim>\<open>setUint32\<close>/\<^verbatim>\<open>setInt32\<close> store their argument modulo \<open>2^8\<close>, \<open>2^16\<close> and \<open>2^32\<close>,
  here little-endian.
\<close>

definition setUint8 :: "int \<Rightarrow> byte" where
  "setUint8 v = word_of_int v"

definition le16 :: "int \<Rightarrow> byte list" where
  "le16 v = [word_of_int v, word_of_int (v div 256)]"

definition le32 :: "int \<Rightarrow> byte list" where
  "le32 v = [word_of_int v, word_of_int (v div 256), word_of_int (v div 65536),
             word_of_int (v div 16777216)]"

definition bmpHeader :: "nat \<Rightarrow> nat \<Rightarrow> nat \<Rightarrow> nat \<Rightarrow> nat \<Rightarrow> nat \<Rightarrow> nat \<Rightarrow> byte list" where
  "bmpHeader fileSize dataOffset w h bitsPerPixel pixelArraySize paletteColors =
     [0x42, 0x4d] @ le32 (int fileSize) @ le32 0 @ le32 (int dataOffset)
     @ le32 40 @ le32 (int w) @ le32 (- int h) @ le16 1 @ le16 (int bitsPerPixel) @ le32 0
     @ le32 (int pixelArraySize) @ le32 2835 @ le32 2835
     @ le32 (int paletteColors) @ le32 (int paletteColors)"

definition rowSize :: "nat \<Rightarrow> nat \<Rightarrow> nat" where
  "rowSize bitsPerPixel w = (bitsPerPixel * w + 31) div 32 * 4"

definition encodeBMP :: "ImageData \<Rightarrow> byte list" where
  "encodeBMP img =
     (let w = width img; h = height img; d = data img;
          pixelArraySize = rowSize 24 w * h;
          fileSize = 54 + pixelArraySize;
          padding = rowSize 24 w - w * 3
      in bmpHeader fileSize 54 w h 24 pixelArraySize 0
         @ concat (map (\<lambda>y.
             concat (map (\<lambda>x. (let i = (y * w + x) * 4 in [d ! (i + 2), d ! (i + 1), d ! i]))
                      [0..<w])
             @ replicate padding 0) [0..<h]))"

text \<open>
  The index array of the 8-bit and 4-bit encoders: a zero-filled \<^verbatim>\<open>Uint8Array\<close> of
  \<open>width * height\<close> entries, written at \<open>y * width + x\<close>; the store keeps the index
  modulo 256.
\<close>

definition pixelIndex :: "byte list \<Rightarrow> (int \<Rightarrow> int \<Rightarrow> int \<Rightarrow> nat) \<Rightarrow> nat \<Rightarrow> byte" where
  "pixelIndex d findClosest i =
     (if d ! (i + 3) < 128 then 0
      else of_nat (findClosest (uint (d ! i)) (uint (d ! (i + 1))) (uint (d ! (i + 2)))))"

definition assignIndices :: "byte list \<Rightarrow> nat \<Rightarrow> nat \<Rightarrow> (int \<Rightarrow> int \<Rightarrow> int \<Rightarrow> nat) \<Rightarrow> byte list" where
  "assignIndices d w h findClosest =
     foldl (\<lambda>pixelIndices y.
              foldl (\<lambda>pixelIndices x.
                       pixelIndices[y * w + x := pixelIndex d findClosest ((y * w + x) * 4)])
                pixelIndices [0..<w])
       (replicate (w * h) 0) [0..<h]"

text \<open>The palette table: \<open>n\<close> entries B, G, R, 0; \<^verbatim>\<open>colorArray[i] || { r: 0, g: 0, b: 0 }\<close>.\<close>

definition paletteBytes :: "rgb list \<Rightarrow> nat \<Rightarrow> byte list" where
  "paletteBytes colorArray n =
     concat (map (\<lambda>i. (let c = (if i < length colorArray then colorArray ! i else black)
                        in [setUint8 (p_b c), setUint8 (p_g c), setUint8 (p_r c), 0]))
               [0..<n])"

text \<open>The buffer whose pixels get their indices: the dithered copy when dithering is on.\<close>

definition indexSource ::
  "ImageData \<Rightarrow> bool \<Rightarrow> rgb list \<Rightarrow> (int \<Rightarrow> int \<Rightarrow> int \<Rightarrow> nat) \<Rightarrow> error + byte list" where
  "indexSource img dither colorArray findClosest =
     (if dither then ditheredData (data img) (width img) (height img) colorArray findClosest
      else Inr (data img))"

definition encodeBMP8BitFromData ::
  "byte list \<Rightarrow> nat \<Rightarrow> nat \<Rightarrow> rgb list \<Rightarrow> (int \<Rightarrow> int \<Rightarrow> int \<Rightarrow> nat) \<Rightarrow> byte list" where
  "encodeBMP8BitFromData d w h colorArray findClosest =
     (let pixelIndices = assignIndices d w h findClosest;
          paletteSize = 256 * 4;
          pixelArraySize = rowSize 8 w * h;
          fileSize = 54 + paletteSize + pixelArraySize;
          padding = rowSize 8 w - w
      in bmpHeader fileSize (54 + paletteSize) w h 8 pixelArraySize 256
         @ paletteBytes colorArray 256
         @ concat (map (\<lambda>y. map (\<lambda>x. pixelIndices ! (y * w + x)) [0..<w] @ replicate padding 0)
                     [0..<h]))"

definition encodeBMP8Bit :: "ImageData \<Rightarrow> bool \<Rightarrow> error + byte list" where
  "encodeBMP8Bit img dither =
     (case build8BitPalette (data img) of
        Inl e \<Rightarrow> Inl e
      | Inr (colorArray, findClosest) \<Rightarrow>
          (case indexSource img dither colorArray findClosest of
             Inl e \<Rightarrow> Inl e
           | Inr d \<Rightarrow> Inr (encodeBMP8BitFromData d (width img) (height img) colorArray findClosest)))"

text \<open>
  4-bit rows: one byte for the pixels \<open>x\<close> and \<open>x + 1\<close>, \<open>x\<close> even;
  \<^verbatim>\<open>(idx1 << 4) | idx2\<close> is stored modulo 256.
\<close>

definition packedByte :: "byte list \<Rightarrow> nat \<Rightarrow> nat \<Rightarrow> nat \<Rightarrow> byte" where
  "packedByte pixelIndices w y x =
     (let idx1 = unat (pixelIndices ! (y * w + x));
          idx2 = (if x + 1 < w then unat (pixelIndices ! (y * w + x + 1)) else 0)
      in of_nat (push_bit 4 idx1 OR idx2))"

definition encodeBMP4BitFromData ::
  "byte list \<Rightarrow> nat \<Rightarrow> nat \<Rightarrow> rgb list \<Rightarrow> (int \<Rightarrow> int \<Rightarrow> int \<Rightarrow> nat) \<Rightarrow> byte list" where
  "encodeBMP4BitFromData d w h colorArray findClosest =
     (let pixelIndices = assignIndices d w h findClosest;
          paletteSize = 16 * 4;
          pixelArraySize = rowSize 4 w * h;
          fileSize = 54 + paletteSize + pixelArraySize;
          padding = rowSize 4 w - (w + 1) div 2
      in bmpHeader fileSize (54 + paletteSize) w h 4 pixelArraySize 16
         @ paletteBytes colorArray 16
         @ concat (map (\<lambda>y. map (\<lambda>k. packedByte pixelIndices w y (2 * k)) [0..<(w + 1) div 2]
                              @ replicate padding 0)
                     [0..<h]))"

definition encodeBMP4Bit :: "ImageData \<Rightarrow> bool \<Rightarrow> error + byte list" where
  "encodeBMP4Bit img aggressive =
     (case build4BitPalette (data img) of
        Inl e \<Rightarrow> Inl e
      | Inr (colorArray, findClosest) \<Rightarrow>
          (case indexSource img aggressive colorArray findClosest of
             Inl e \<Rightarrow> Inl e
           | Inr d \<Rightarrow> Inr (encodeBMP4BitFromData d (width img) (height img) colorArray findClosest)))"

section \<open>Previews\<close>

definition generatePreview24Bit :: "ImageData \<Rightarrow> ImageData" where
  "generatePreview24Bit img = \<lparr>width = width img, height = height img, data = data img\<rparr>"

definition generatePreview8Bit :: "ImageData \<Rightarrow> bool \<Rightarrow> error + ImageData" where
  "generatePreview8Bit img dither =
     (case build8BitPalette (data img) of
        Inl e \<Rightarrow> Inl e
      | Inr (colorArray, findClosest) \<Rightarrow>
          (case indexSource img dither colorArray findClosest of
             Inl e \<Rightarrow> Inl e
           | Inr d \<Rightarrow>
               quantizeImageData \<lparr>width = width img, height = height img, data = d\<rparr>
                 colorArray findClosest))"

definition generatePreview4Bit :: "ImageData \<Rightarrow> bool \<Rightarrow> error + ImageData" where
  "generatePreview4Bit img aggressive =
     (case build4BitPalette (data img) of
        Inl e \<Rightarrow> Inl e
      | Inr (colorArray, findClosest) \<Rightarrow>
          (case indexSource img aggressive colorArray findClosest of
             Inl e \<Rightarrow> Inl e
           | Inr d \<Rightarrow>
               quantizeImageData \<lparr>width = width img, height = height img, data = d\<rparr>
                 colorArray findClosest))"

section \<open>Decoding, as the test suite reads a file back\<close>

text \<open>
  The colour of pixel \<open>(x, y)\<close> in an encoded file, as \<open>(r, g, b)\<close>: the BGR triple of a
  24-bit file; for the palette depths the entry at \<open>54 + 4 * index\<close> of the stored index,
  a byte of the row in an 8-bit file (\<^verbatim>\<open>extractBMP8BitColors\<close>) and a nibble, the high one
  for even \<open>x\<close>, in a 4-bit file (\<^verbatim>\<open>extractBMP4BitColors\<close>).
\<close>

definition paletteEntry :: "byte list \<Rightarrow> nat \<Rightarrow> byte \<times> byte \<times> byte" where
  "paletteEntry file index =
     (file ! (54 + index * 4 + 2), file ! (54 + index * 4 + 1), file ! (54 + index * 4))"

definition decode24 :: "byte list \<Rightarrow> nat \<Rightarrow> nat \<Rightarrow> nat \<Rightarrow> byte \<times> byte \<times> byte" where
  "decode24 file w x y =
     (let off = 54 + y * rowSize 24 w + 3 * x in (file ! (off + 2), file ! (off + 1), file ! off))"

definition storedIndex8 :: "byte list \<Rightarrow> nat \<Rightarrow> nat \<Rightarrow> nat \<Rightarrow> nat" where
  "storedIndex8 file w x y = unat (file ! (54 + 256 * 4 + y * rowSize 8 w + x))"

definition storedIndex4 :: "byte list \<Rightarrow> nat \<Rightarrow> nat \<Rightarrow> nat \<Rightarrow> nat" where
  "storedIndex4 file w x y =
     (let byte = unat (file ! (54 + 16 * 4 + y * rowSize 4 w + x div 2))
      in if even x then drop_bit 4 byte AND 0xf else byte AND 0xf)"

definition decode8 :: "byte list \<Rightarrow> nat \<Rightarrow> nat \<Rightarrow> nat \<Rightarrow> byte \<times> byte \<times> byte" where
  "decode8 file w x y = paletteEntry file (storedIndex8 file w x y)"

definition decode4 :: "byte list \<Rightarrow> nat \<Rightarrow> nat \<Rightarrow> nat \<Rightarrow> byte \<times> byte \<times> byte" where
  "decode4 file w x y = paletteEntry file (storedIndex4 file w x y)"

definition pixelRGB :: "ImageData \<Rightarrow> nat \<Rightarrow> nat \<Rightarrow> byte \<times> byte \<times> byte" where
  "pixelRGB img x y =
     (let i = (y * width img + x) * 4 in (data img ! i, data img ! (i + 1), data img ! (i + 2)))"

definition pixelAlpha :: "ImageData \<Rightarrow> nat \<Rightarrow> nat \<Rightarrow> byte" where
  "pixelAlpha img x y = data img ! ((y * width img + x) * 4 + 3)"

text \<open>The three depths behind one interface, \<open>preview(depth, dither)\<close> and \<open>encode(depth, dither)\<close>.\<close>

datatype depth = Bits24 | Bits8 | Bits4

fun preview :: "depth \<Rightarrow> bool \<Rightarrow> ImageData \<Rightarrow> error + ImageData" where
  "preview Bits24 dither img = Inr (generatePreview24Bit img)"
| "preview Bits8 dither img = generatePreview8Bit img dither"
| "preview Bits4 dither img = generatePreview4Bit img dither"

fun encode :: "depth \<Rightarrow> bool \<Rightarrow> ImageData \<Rightarrow> error + byte list" where
  "encode Bits24 dither img = Inr (encodeBMP img)"
| "encode Bits8 dither img = encodeBMP8Bit img dither"
| "encode Bits4 dither img = encodeBMP4Bit img dither"

fun decode :: "depth \<Rightarrow> byte list \<Rightarrow> nat \<Rightarrow> nat \<Rightarrow> nat \<Rightarrow> byte \<times> byte \<times> byte" where
  "decode Bits24 file w x y = decode24 file w x y"
| "decode Bits8 file w x y = decode8 file w x y"
| "decode Bits4 file w x y = decode4 file w x y"

section \<open>Notions of the specification\<close>

text \<open>
  What one box contributes to the palette: black for a box without samples, nothing for a
  box whose average rounds to black, its average otherwise.
\<close>

definition boxEntries :: "box \<Rightarrow> rgb list" where
  "boxEntries bx =
     (if colors bx = [] then [black]
      else if averageColor (colors bx) = black then []
      else [averageColor (colors bx)])"

text \<open>
  What the ditherer may change in a buffer: \<open>keepsTransparent old new\<close> holds when \<open>new\<close>
  has the length of \<open>old\<close>, the same alpha byte in every pixel, and the same colour bytes
  in every pixel whose alpha is below 128. \<open>frame s s' dd\<close> relates two stores that differ
  at most in the array at address \<open>dd\<close>, and there only in this way.
\<close>

definition keepsTransparent :: "byte list \<Rightarrow> byte list \<Rightarrow> bool" where
  "keepsTransparent old new \<longleftrightarrow>
     length new = length old \<and>
     (\<forall>k. 4 * k + 3 < length old \<longrightarrow>
        new ! (4 * k + 3) = old ! (4 * k + 3) \<and>
        (old ! (4 * k + 3) < 128 \<longrightarrow>
           new ! (4 * k) = old ! (4 * k) \<and> new ! (4 * k + 1) = old ! (4 * k + 1)
           \<and> new ! (4 * k + 2) = old ! (4 * k + 2)))"

definition frame :: "store \<Rightarrow> store \<Rightarrow> nat \<Rightarrow> bool" where
  "frame s s' dd \<longleftrightarrow>
     length s' = length s \<and> (\<forall>a. a \<noteq> dd \<longrightarrow> s' ! a = s ! a)
     \<and> keepsTransparent (s ! dd) (s' ! dd)"


text \<open>
  The distance the matcher computes for entry \<open>j\<close> of a palette, and the invariant of its
  scan before entry \<open>i\<close>: \<open>bestIndex\<close> is the first entry of least computed distance
  among the entries before \<open>i\<close>, and \<open>minDist\<close> is that distance.
\<close>

definition paletteDistance :: "rgb list \<Rightarrow> int \<Rightarrow> int \<Rightarrow> int \<Rightarrow> nat \<Rightarrow> rat" where
  "paletteDistance colorArray r g b j =
     perceptualDistance r g b (p_r (colorArray ! j)) (p_g (colorArray ! j)) (p_b (colorArray ! j))"

definition scanState :: "rgb list \<Rightarrow> int \<Rightarrow> int \<Rightarrow> int \<Rightarrow> nat \<Rightarrow> rat option \<Rightarrow> nat \<Rightarrow> bool" where
  "scanState colorArray r g b i minDist bestIndex \<longleftrightarrow>
     (case minDist of
        None \<Rightarrow> i = 0 \<and> bestIndex = 0
      | Some m \<Rightarrow> bestIndex < i \<and> m = paletteDistance colorArray r g b bestIndex
          \<and> (\<forall>j < i. m \<le> paletteDistance colorArray r g b j)
          \<and> (\<forall>j < bestIndex. m < paletteDistance colorArray r g b j))"

section \<open>The palette builder: size, index 0, failure\<close>

lemma paletteLoop_nth0:
  "palette \<noteq> [] \<Longrightarrow> paletteLoop maxColors boxes palette ! 0 = palette ! 0"
  by (induction boxes arbitrary: palette) (auto simp: nth_append)

lemma paletteLoop_nonempty: "palette \<noteq> [] \<Longrightarrow> paletteLoop maxColors boxes palette \<noteq> []"
  by (induction boxes arbitrary: palette) auto

lemma fillPalette_length: "length (fillPalette maxColors palette) = maxColors"
  by (simp add: fillPalette_def)

lemma fillPalette_nth0:
  "palette \<noteq> [] \<Longrightarrow> 0 < maxColors \<Longrightarrow> fillPalette maxColors palette ! 0 = palette ! 0"
  by (cases palette) (auto simp: fillPalette_def nth_append)

lemma medianCutQuantize_length:
  "medianCutQuantize d maxColors = Inr pal \<Longrightarrow> length pal = maxColors"
  by (auto simp: medianCutQuantize_def Let_def fillPalette_length split: if_splits sum.splits)

lemma medianCutQuantize_nth0:
  "medianCutQuantize d maxColors = Inr pal \<Longrightarrow> 0 < maxColors \<Longrightarrow> pal ! 0 = black"
  by (auto simp: medianCutQuantize_def Let_def fillPalette_nth0 paletteLoop_nth0
      paletteLoop_nonempty split: if_splits sum.splits)

lemma paletteLoop_entries:
  "length palette \<le> maxColors \<Longrightarrow>
   paletteLoop maxColors boxes palette = take maxColors (palette @ concat (map boxEntries boxes))"
proof (induction boxes arbitrary: palette)
  case Nil
  then show ?case by simp
next
  case (Cons bx rest)
  show ?case
  proof (cases "length palette \<ge> maxColors")
    case True
    with Cons.prems show ?thesis by simp
  next
    case False
    then have lt: "length palette < maxColors" by simp
    then obtain k where k: "maxColors - length palette = Suc k"
      by (cases "maxColors - length palette") auto
    then have k': "maxColors - Suc (length palette) = k" by simp
    show ?thesis
      using lt k k' Cons.IH [of "palette @ [black]"] Cons.IH [of palette]
        Cons.IH [of "palette @ [averageColor (colors bx)]"]
      by (simp add: boxEntries_def)
  qed
qed

text \<open>
  Claim C2 (the palette builder terminates without raising and returns exactly N entries,
  for every buffer and N in {16, 256}). The builder is a total function and every palette it
  returns has N entries (\<open>medianCutQuantize_length\<close>), but it can raise. On the 3x1 image
  with the opaque pixels (0,0,0), (0,0,1), (0,0,1) the first three splits each put both
  samples into the left child and leave a right child without samples; the left box ends
  with ranges 0, 0 and 1, so the fallback search takes the first box with a range above 1,
  which has no samples, and reading \<^verbatim>\<open>color.b\<close> of its missing first sample raises a
  \<^verbatim>\<open>TypeError\<close>, for N = 16 and for N = 256.
\<close>

theorem medianCutQuantize_raises_on_empty_box:
  "medianCutQuantize [0, 0, 0, 255,  0, 0, 1, 255,  0, 0, 1, 255] 16 = Inl TypeError
   \<and> medianCutQuantize [0, 0, 0, 255,  0, 0, 1, 255,  0, 0, 1, 255] 256 = Inl TypeError"
  by code_simp

text \<open>
  Claim C3 as stated (entry 0 is black and black appears at no other index) fails: for a
  single opaque black pixel every box averages to black and is skipped, and the palette is
  then filled with black, so that entry 1 is black too.
\<close>

theorem palette_black_elsewhere_counterexample:
  "medianCutQuantize [0, 0, 0, 255] 16 = Inr (replicate 16 black)
   \<and> replicate 16 black ! 1 = black"
  by code_simp

text \<open>
  Claim C3, amended: whenever the builder returns a palette of N > 0 entries, entry 0 is
  black, and the palette is black followed by the contributions of the final boxes in
  order, cut or filled with black to N entries; a box with samples whose average rounds to
  black contributes no entry (\<open>boxEntries\<close>). Black does appear at other indices: for a box
  without samples and as the filler.
\<close>

theorem palette_index0_black:
  assumes "medianCutQuantize d maxColors = Inr pal" and "0 < maxColors"
  shows "pal ! 0 = black
    \<and> (collectColors d [] = [] \<or>
       (\<exists>boxes. splitLoop maxColors [initialBox (collectColors d [])] = Inr boxes
          \<and> pal = fillPalette maxColors
                    (take maxColors (black # concat (map boxEntries boxes)))))"
proof -
  have "pal ! 0 = black"
    using assms by (rule medianCutQuantize_nth0)
  moreover have "collectColors d [] = [] \<or>
       (\<exists>boxes. splitLoop maxColors [initialBox (collectColors d [])] = Inr boxes
          \<and> pal = fillPalette maxColors
                    (take maxColors (black # concat (map boxEntries boxes))))"
  proof (cases "collectColors d [] = []")
    case True
    then show ?thesis by simp
  next
    case False
    with assms(1) obtain boxes where
      b: "splitLoop maxColors [initialBox (collectColors d [])] = Inr boxes"
      and p: "pal = fillPalette maxColors (paletteLoop maxColors boxes [black])"
      by (auto simp: medianCutQuantize_def Let_def split: sum.splits)
    have "paletteLoop maxColors boxes [black]
            = take maxColors ([black] @ concat (map boxEntries boxes))"
      using assms(2) by (intro paletteLoop_entries) simp
    with b p show ?thesis by simp
  qed
  ultimately show ?thesis by blast
qed

text \<open>
  An image of one black and one white pixel: the boxes of the black sample are skipped,
  the box of the white sample gives entry 1, the rest is filler.
\<close>

theorem palette_index0_black_witness:
  "medianCutQuantize [0, 0, 0, 255,  255, 255, 255, 255] 16
     = Inr (black # \<lparr>p_r = 255, p_g = 255, p_b = 255\<rparr> # replicate 14 black)
   \<and> (0::nat) < 16
   \<and> (black # \<lparr>p_r = 255, p_g = 255, p_b = 255\<rparr> # replicate 14 black) ! 0 = black
   \<and> collectColors [0, 0, 0, 255,  255, 255, 255, 255] [] \<noteq> []
   \<and> (\<exists>boxes. splitLoop 16 [initialBox (collectColors [0, 0, 0, 255,  255, 255, 255, 255] [])]
                 = Inr boxes
          \<and> black # \<lparr>p_r = 255, p_g = 255, p_b = 255\<rparr> # replicate 14 black
              = fillPalette 16 (take 16 (black # concat (map boxEntries boxes))))"
proof -
  have h: "medianCutQuantize [0, 0, 0, 255,  255, 255, 255, 255] 16
     = Inr (black # \<lparr>p_r = 255, p_g = 255, p_b = 255\<rparr> # replicate 14 black)"
    by code_simp
  have ne: "collectColors [0, 0, 0, 255,  255, 255, 255, 255] [] \<noteq> []"
    by code_simp
  show ?thesis
    using palette_index0_black [OF h] h ne by simp
qed

section \<open>Splitting a box\<close>

lemma sorted_last_Max:
  "sorted (map f xs) \<Longrightarrow> xs \<noteq> [] \<Longrightarrow> f (last xs) = Max (f ` set xs)"
proof (induction xs)
  case Nil
  then show ?case by simp
next
  case (Cons x xs)
  show ?case
  proof (cases "xs = []")
    case True
    then show ?thesis by simp
  next
    case False
    with Cons have ih: "f (last xs) = Max (f ` set xs)" by simp
    from Cons.prems have "\<forall>y\<in>set xs. f x \<le> f y" by simp
    moreover have "Max (f ` set xs) \<in> f ` set xs" using False by (intro Max_in) auto
    ultimately have "f x \<le> Max (f ` set xs)" by auto
    with False ih show ?thesis by (simp add: max_def)
  qed
qed

lemma sorted_hd_Min:
  "sorted (map f xs) \<Longrightarrow> xs \<noteq> [] \<Longrightarrow> f (hd xs) = Min (f ` set xs)"
proof (cases xs)
  case Nil
  then show "xs \<noteq> [] \<Longrightarrow> ?thesis" by simp
next
  case (Cons x ys)
  assume "sorted (map f xs)"
  with Cons have le: "\<forall>y\<in>set ys. f x \<le> f y" by simp
  show ?thesis
  proof (cases "ys = []")
    case True
    with Cons show ?thesis by simp
  next
    case False
    then have "f x \<le> Min (f ` set ys)" using le by (simp add: Min_ge_iff)
    with Cons False show ?thesis by (simp add: min_def)
  qed
qed

lemma axis_frame:
  "axisMin ax' (setAxisMax ax v bx) = axisMin ax' bx"
  "axisMax ax' (setAxisMin ax v bx) = axisMax ax' bx"
  "axisMax ax' (setAxisMax ax v bx) = (if ax' = ax then v else axisMax ax' bx)"
  "axisMin ax' (setAxisMin ax v bx) = (if ax' = ax then v else axisMin ax' bx)"
  "colors (setAxisMax ax v bx) = colors bx"
  "colors (setAxisMin ax v bx) = colors bx"
  "axisMin ax' (bx\<lparr>colors := cs\<rparr>) = axisMin ax' bx"
  "axisMax ax' (bx\<lparr>colors := cs\<rparr>) = axisMax ax' bx"
  by (cases ax; cases ax'; simp)+

lemma splitColors_multi:
  assumes "length (colors bx) > 1"
  shows "\<exists>l r. splitColors bx ax = Inr (l, r) \<and> l \<noteq> [] \<and> sorted (map (channel ax) l)
           \<and> sorted (map (channel ax) r)"
proof -
  let ?sorted = "sort_key (channel ax) (colors bx)"
  let ?m = "medianLoop ?sorted 0 0 (sum_list (map c_count ?sorted))"
  have ne: "?sorted \<noteq> []" using assms by (metis length_sort list.size(3) not_less_zero)
  have s: "sorted (map (channel ax) ?sorted)" by simp
  have "sorted (map (channel ax) (take (?m + 1) ?sorted))"
    using s by (simp only: take_map [symmetric] sorted_wrt_take)
  moreover have "sorted (map (channel ax) (drop (?m + 1) ?sorted))"
    using s by (simp only: drop_map [symmetric] sorted_wrt_drop)
  moreover have "take (?m + 1) ?sorted \<noteq> []" using ne by simp
  ultimately show ?thesis using assms by (simp add: splitColors_def Let_def)
qed

text \<open>
  Claim C4 as stated (each child's range on the split axis is recomputed from both
  extremes of its own samples) fails: a box over 0..255 with the samples r = 100 and
  r = 200 is split on r into a left child with the sample 100, whose range is 0..100 (its
  minimum is still the parent's 0, not 100), and a right child with the sample 200, whose
  range is 200..255.
\<close>

theorem split_left_minimum_counterexample:
  "splitBox \<lparr>colors = [\<lparr>c_r = 100, c_g = 0, c_b = 0, c_count = 1\<rparr>,
                       \<lparr>c_r = 200, c_g = 0, c_b = 0, c_count = 1\<rparr>],
             rMin = 0, rMax = 255, gMin = 0, gMax = 255, bMin = 0, bMax = 255\<rparr>
   = Inr (\<lparr>colors = [\<lparr>c_r = 100, c_g = 0, c_b = 0, c_count = 1\<rparr>],
           rMin = 0, rMax = 100, gMin = 0, gMax = 255, bMin = 0, bMax = 255\<rparr>,
          \<lparr>colors = [\<lparr>c_r = 200, c_g = 0, c_b = 0, c_count = 1\<rparr>],
           rMin = 200, rMax = 255, gMin = 0, gMax = 255, bMin = 0, bMax = 255\<rparr>)
   \<and> (0::int) \<noteq> Min (c_r ` set [\<lparr>c_r = 100, c_g = 0, c_b = 0, c_count = 1\<rparr>])"
  by code_simp

text \<open>
  Claim C4, amended: a box with more than one sample is always split, its left child has
  samples, and for every axis \<open>ax\<close>: the left child keeps the parent's minimum, and its
  maximum is the greatest value of its own samples on the split axis and the parent's on
  the other axes; the right child keeps the parent's maximum, and its minimum is the least
  value of its own samples on the split axis when it has samples, and the parent's
  otherwise and on the other axes.
\<close>

theorem split_child_bounds:
  assumes "length (colors bx) > 1"
  shows "\<exists>leftBox rightBox. splitBox bx = Inr (leftBox, rightBox)
     \<and> colors leftBox \<noteq> []
     \<and> axisMin ax leftBox = axisMin ax bx
     \<and> axisMax ax leftBox =
         (if ax = sortBy bx then Max (channel ax ` set (colors leftBox)) else axisMax ax bx)
     \<and> axisMin ax rightBox =
         (if ax = sortBy bx \<and> colors rightBox \<noteq> [] then Min (channel ax ` set (colors rightBox))
          else axisMin ax bx)
     \<and> axisMax ax rightBox = axisMax ax bx"
proof -
  obtain l r where lr: "splitColors bx (sortBy bx) = Inr (l, r)" "l \<noteq> []"
    "sorted (map (channel (sortBy bx)) l)" "sorted (map (channel (sortBy bx)) r)"
    using splitColors_multi [OF assms] by blast
  show ?thesis
    using lr sorted_last_Max [OF lr(3) lr(2)] sorted_hd_Min [OF lr(4)]
    by (auto simp: splitBox_def childBoxes_def Let_def axis_frame)
qed

theorem split_child_bounds_witness:
  "length (colors \<lparr>colors = [\<lparr>c_r = 100, c_g = 0, c_b = 0, c_count = 1\<rparr>,
                             \<lparr>c_r = 200, c_g = 0, c_b = 0, c_count = 1\<rparr>],
             rMin = 0, rMax = 255, gMin = 0, gMax = 255, bMin = 0, bMax = 255\<rparr>) > 1
   \<and> (\<exists>leftBox rightBox.
        splitBox \<lparr>colors = [\<lparr>c_r = 100, c_g = 0, c_b = 0, c_count = 1\<rparr>,
                            \<lparr>c_r = 200, c_g = 0, c_b = 0, c_count = 1\<rparr>],
             rMin = 0, rMax = 255, gMin = 0, gMax = 255, bMin = 0, bMax = 255\<rparr>
          = Inr (leftBox, rightBox)
        \<and> colors leftBox \<noteq> []
        \<and> rMin leftBox = 0
        \<and> rMax leftBox = Max (c_r ` set (colors leftBox))
        \<and> rMin rightBox = (if colors rightBox \<noteq> [] then Min (c_r ` set (colors rightBox)) else 0)
        \<and> rMax rightBox = 255)"
proof -
  let ?bx = "\<lparr>colors = [\<lparr>c_r = 100, c_g = 0, c_b = 0, c_count = 1\<rparr>,
                        \<lparr>c_r = 200, c_g = 0, c_b = 0, c_count = 1\<rparr>],
             rMin = 0, rMax = 255, gMin = 0, gMax = 255, bMin = 0, bMax = 255\<rparr>"
  have h: "length (colors ?bx) > 1" by simp
  have ax: "sortBy ?bx = AxisR"
    by (simp add: sortBy_def rRange_def gRange_def bRange_def)
  have c: "channel AxisR = c_r" by (rule ext) simp
  from split_child_bounds [OF h, of AxisR] obtain l r where
    s: "splitBox ?bx = Inr (l, r)" and l: "colors l \<noteq> []"
    and b1: "axisMin AxisR l = axisMin AxisR ?bx"
    and b2: "axisMax AxisR l = Max (channel AxisR ` set (colors l))"
    and b3: "axisMin AxisR r =
       (if colors r \<noteq> [] then Min (channel AxisR ` set (colors r)) else axisMin AxisR ?bx)"
    and b4: "axisMax AxisR r = axisMax AxisR ?bx"
    unfolding ax by auto
  have "rMin l = 0" using b1 by simp
  moreover have "rMax l = Max (c_r ` set (colors l))" using b2 unfolding c by simp
  moreover have "rMin r = (if colors r \<noteq> [] then Min (c_r ` set (colors r)) else 0)"
    using b3 unfolding c by simp
  moreover have "rMax r = 255" using b4 by simp
  ultimately show ?thesis using h s l by blast
qed

section \<open>Layout of the encoded files\<close>

lemma length_concat_rows:
  "(\<And>y. y < h \<Longrightarrow> length (f y) = n) \<Longrightarrow> length (concat (map f [0..<h])) = h * n"
  by (induction h) auto

lemma concat_rows_nth:
  assumes "\<And>y. y < h \<Longrightarrow> length (f y) = n" and "y < h" and "k < n"
  shows "concat (map f [0..<h]) ! (y * n + k) = f y ! k"
  using assms
proof (induction h)
  case 0
  then show ?case by simp
next
  case (Suc h)
  have len: "length (concat (map f [0..<h])) = h * n"
    using Suc.prems(1) by (intro length_concat_rows) simp
  show ?case
  proof (cases "y < h")
    case True
    then have "y * n + k < h * n"
    proof -
      have "y * n + k < y * n + n" using Suc.prems(3) by simp
      also have "\<dots> = Suc y * n" by simp
      also have "\<dots> \<le> h * n" using True by (intro mult_le_mono1) simp
      finally show ?thesis .
    qed
    then show ?thesis
      using Suc.IH [OF _ True Suc.prems(3)] Suc.prems(1) len by (simp add: nth_append)
  next
    case False
    with Suc.prems(2) have "y = h" by simp
    then show ?thesis using len by (simp add: nth_append)
  qed
qed

lemma length_bmpHeader: "length (bmpHeader a b c d e f g) = 54"
  by (simp add: bmpHeader_def le32_def le16_def)

lemma rowSize24_ge: "w * 3 \<le> rowSize 24 w"
  by (simp add: rowSize_def) 

lemma rowSize8_ge: "w \<le> rowSize 8 w"
  by (simp add: rowSize_def) 

lemma rowSize4_ge: "(w + 1) div 2 \<le> rowSize 4 w"
  by (simp add: rowSize_def) 

lemma encodeBMP_nth:
  assumes "x < width img" and "y < height img" and "c < 3"
  shows "encodeBMP img ! (54 + y * rowSize 24 (width img) + 3 * x + c)
         = [data img ! ((y * width img + x) * 4 + 2), data img ! ((y * width img + x) * 4 + 1),
            data img ! ((y * width img + x) * 4)] ! c"
proof -
  let ?w = "width img" and ?d = "data img"
  let ?px = "\<lambda>y x. [?d ! ((y * ?w + x) * 4 + 2), ?d ! ((y * ?w + x) * 4 + 1), ?d ! ((y * ?w + x) * 4)]"
  let ?row = "\<lambda>y. concat (map (?px y) [0..<?w]) @ replicate (rowSize 24 ?w - ?w * 3) 0"
  have lpx: "length (concat (map (?px y) [0..<?w])) = ?w * 3" for y
    by (rule length_concat_rows) simp
  have lrow: "length (?row y) = rowSize 24 ?w" for y
    using lpx [of y] rowSize24_ge [of ?w] by simp
  have k: "x * 3 + c < ?w * 3" using assms(1,3) by simp
  have k': "x * 3 + c < rowSize 24 ?w" using k rowSize24_ge [of ?w] by simp
  have "encodeBMP img ! (54 + y * rowSize 24 ?w + 3 * x + c)
        = concat (map ?row [0..<height img]) ! (y * rowSize 24 ?w + (x * 3 + c))"
    by (simp add: encodeBMP_def Let_def nth_append length_bmpHeader add.assoc mult.commute)
  also have "\<dots> = ?row y ! (x * 3 + c)"
    by (rule concat_rows_nth [OF lrow assms(2) k'])
  also have "\<dots> = concat (map (?px y) [0..<?w]) ! (x * 3 + c)"
    using k lpx [of y] by (simp add: nth_append)
  also have "\<dots> = ?px y x ! c"
    by (rule concat_rows_nth [OF _ assms(1,3)]) simp
  finally show ?thesis .
qed

text \<open>
  Claim C5: the 24-bit file holds, for every pixel \<open>(x, y)\<close> of an image and whatever its
  alpha, the source's blue, green and red bytes at offset \<open>54 + y * rowSize + 3 * x\<close>
  and the two offsets after it, so that reading the file back gives the source's RGB.
\<close>

theorem encodeBMP_lossless:
  assumes "wellFormed img" and "x < width img" and "y < height img"
  shows "encodeBMP img ! (54 + y * rowSize 24 (width img) + 3 * x)
           = data img ! ((y * width img + x) * 4 + 2)
       \<and> encodeBMP img ! (54 + y * rowSize 24 (width img) + 3 * x + 1)
           = data img ! ((y * width img + x) * 4 + 1)
       \<and> encodeBMP img ! (54 + y * rowSize 24 (width img) + 3 * x + 2)
           = data img ! ((y * width img + x) * 4)
       \<and> decode24 (encodeBMP img) (width img) x y = pixelRGB img x y"
  using encodeBMP_nth [OF assms(2,3), of 0] encodeBMP_nth [OF assms(2,3), of 1]
    encodeBMP_nth [OF assms(2,3), of 2]
  by (simp add: decode24_def pixelRGB_def Let_def)

text \<open>A 1x1 image whose pixel (100, 200, 50) is fully transparent.\<close>

theorem encodeBMP_lossless_witness:
  "wellFormed \<lparr>width = 1, height = 1, data = [100, 200, 50, 0]\<rparr>
   \<and> encodeBMP \<lparr>width = 1, height = 1, data = [100, 200, 50, 0]\<rparr> ! 54 = 50
   \<and> encodeBMP \<lparr>width = 1, height = 1, data = [100, 200, 50, 0]\<rparr> ! 55 = 200
   \<and> encodeBMP \<lparr>width = 1, height = 1, data = [100, 200, 50, 0]\<rparr> ! 56 = 100
   \<and> decode24 (encodeBMP \<lparr>width = 1, height = 1, data = [100, 200, 50, 0]\<rparr>) 1 0 0
       = (100, 200, 50)"
proof -
  let ?img = "\<lparr>width = 1, height = 1, data = [100, 200, 50, 0]\<rparr>"
  have wf: "wellFormed ?img" by (simp add: wellFormed_def)
  show ?thesis
    using encodeBMP_lossless [OF wf, of 0 0] wf by (simp add: pixelRGB_def)
qed

section \<open>The index array\<close>

lemma rowUpdate_length:
  "length (foldl (\<lambda>acc x. acc[b + x := f x]) acc [0..<n]) = length acc"
  by (induction n) simp_all

lemma rowUpdate_nth:
  "k < length acc \<Longrightarrow>
   foldl (\<lambda>acc x. acc[b + x := f x]) acc [0..<n] ! k
     = (if b \<le> k \<and> k < b + n then f (k - b) else acc ! k)"
proof (induction n)
  case 0
  then show ?case by auto
next
  case (Suc n)
  let ?prev = "foldl (\<lambda>acc x. acc[b + x := f x]) acc [0..<n]"
  have len: "k < length ?prev" using Suc.prems by (simp add: rowUpdate_length)
  show ?case
  proof (cases "k = b + n")
    case True
    then show ?thesis using len by simp
  next
    case False
    then have "?prev[b + n := f n] ! k = ?prev ! k" by simp
    then show ?thesis using Suc.IH [OF Suc.prems] False by auto
  qed
qed

lemma gridUpdate_length:
  "length (foldl (\<lambda>acc y. foldl (\<lambda>acc x. acc[y * w + x := g y x]) acc [0..<w]) acc [0..<h])
     = length acc"
  by (induction h) (simp_all add: rowUpdate_length)

lemma gridUpdate_nth:
  assumes "x < w" and "y < h" and "y * w + x < length acc"
  shows "foldl (\<lambda>acc y. foldl (\<lambda>acc x. acc[y * w + x := g y x]) acc [0..<w]) acc [0..<h]
           ! (y * w + x) = g y x"
  using assms(2)
proof (induction h)
  case 0
  then show ?case by simp
next
  case (Suc h)
  let ?prev = "foldl (\<lambda>acc y. foldl (\<lambda>acc x. acc[y * w + x := g y x]) acc [0..<w]) acc [0..<h]"
  have len: "y * w + x < length ?prev" using assms(3) by (simp add: gridUpdate_length)
  show ?case
  proof (cases "y < h")
    case True
    have "y * w + x < y * w + w" using assms(1) by simp
    also have "\<dots> = Suc y * w" by simp
    also have "\<dots> \<le> h * w" using True by (intro mult_le_mono1) simp
    finally have "\<not> h * w \<le> y * w + x" by simp
    then show ?thesis using Suc.IH [OF True] rowUpdate_nth [OF len, of "h * w" "g h" w]
      by simp
  next
    case False
    with Suc.prems have "y = h" by simp
    then show ?thesis using rowUpdate_nth [OF len, of "h * w" "g h" w] assms(1) by simp
  qed
qed

lemma assignIndices_nth:
  assumes "x < w" and "y < h"
  shows "assignIndices d w h findClosest ! (y * w + x) = pixelIndex d findClosest ((y * w + x) * 4)"
proof -
  have "y * w + x < y * w + w" using assms(1) by simp
  also have "\<dots> = Suc y * w" by simp
  also have "\<dots> \<le> h * w" using assms(2) by (intro mult_le_mono1) simp
  finally have "y * w + x < length (replicate (w * h) (0::byte))" by (simp add: mult.commute)
  from gridUpdate_nth [OF assms this, of "\<lambda>y x. pixelIndex d findClosest ((y * w + x) * 4)"]
  show ?thesis by (simp add: assignIndices_def)
qed

lemma length_paletteBytes: "length (paletteBytes colorArray n) = n * 4"
  unfolding paletteBytes_def Let_def by (rule length_concat_rows) simp

lemma paletteBytes_nth:
  assumes "i < n" and "c < 4"
  shows "paletteBytes colorArray n ! (i * 4 + c)
     = [setUint8 (p_b (if i < length colorArray then colorArray ! i else black)),
        setUint8 (p_g (if i < length colorArray then colorArray ! i else black)),
        setUint8 (p_r (if i < length colorArray then colorArray ! i else black)), 0] ! c"
  unfolding paletteBytes_def Let_def by (rule concat_rows_nth [OF _ assms]) simp

lemma encodeBMP8BitFromData_index:
  assumes "x < w" and "y < h"
  shows "encodeBMP8BitFromData d w h colorArray findClosest ! (54 + 256 * 4 + y * rowSize 8 w + x)
     = assignIndices d w h findClosest ! (y * w + x)"
proof -
  let ?ix = "assignIndices d w h findClosest"
  let ?row = "\<lambda>y. map (\<lambda>x. ?ix ! (y * w + x)) [0..<w] @ replicate (rowSize 8 w - w) 0"
  have lrow: "length (?row y) = rowSize 8 w" for y using rowSize8_ge [of w] by simp
  have k: "x < rowSize 8 w" using assms(1) rowSize8_ge [of w] by simp
  have "encodeBMP8BitFromData d w h colorArray findClosest ! (54 + 256 * 4 + y * rowSize 8 w + x)
      = concat (map ?row [0..<h]) ! (y * rowSize 8 w + x)"
    by (simp add: encodeBMP8BitFromData_def Let_def nth_append length_bmpHeader
        length_paletteBytes add.assoc)
  also have "\<dots> = ?row y ! x" by (rule concat_rows_nth [OF lrow assms(2) k])
  also have "\<dots> = ?ix ! (y * w + x)" using assms(1) by (simp add: nth_append)
  finally show ?thesis .
qed

lemma encodeBMP8BitFromData_palette:
  assumes "i < 256" and "c < 4"
  shows "encodeBMP8BitFromData d w h colorArray findClosest ! (54 + i * 4 + c)
     = paletteBytes colorArray 256 ! (i * 4 + c)"
proof -
  have "i * 4 + c < 1024" using assms by simp
  then show ?thesis
    by (simp add: encodeBMP8BitFromData_def Let_def nth_append length_bmpHeader
        length_paletteBytes add.assoc)
qed

lemma encodeBMP4BitFromData_index:
  assumes "k < (w + 1) div 2" and "y < h"
  shows "encodeBMP4BitFromData d w h colorArray findClosest ! (54 + 16 * 4 + y * rowSize 4 w + k)
     = packedByte (assignIndices d w h findClosest) w y (2 * k)"
proof -
  let ?ix = "assignIndices d w h findClosest"
  let ?row = "\<lambda>y. map (\<lambda>k. packedByte ?ix w y (2 * k)) [0..<(w + 1) div 2]
                  @ replicate (rowSize 4 w - (w + 1) div 2) 0"
  have lrow: "length (?row y) = rowSize 4 w" for y using rowSize4_ge [of w] by simp
  have k: "k < rowSize 4 w" using assms(1) rowSize4_ge [of w] by simp
  have "encodeBMP4BitFromData d w h colorArray findClosest ! (54 + 16 * 4 + y * rowSize 4 w + k)
      = concat (map ?row [0..<h]) ! (y * rowSize 4 w + k)"
    by (simp add: encodeBMP4BitFromData_def Let_def nth_append length_bmpHeader
        length_paletteBytes add.assoc)
  also have "\<dots> = ?row y ! k" by (rule concat_rows_nth [OF lrow assms(2) k])
  also have "\<dots> = packedByte ?ix w y (2 * k)" using assms(1) by (simp add: nth_append)
  finally show ?thesis .
qed

lemma encodeBMP4BitFromData_palette:
  assumes "i < 16" and "c < 4"
  shows "encodeBMP4BitFromData d w h colorArray findClosest ! (54 + i * 4 + c)
     = paletteBytes colorArray 16 ! (i * 4 + c)"
proof -
  have "i * 4 + c < 64" using assms by simp
  then show ?thesis
    by (simp add: encodeBMP4BitFromData_def Let_def nth_append length_bmpHeader
        length_paletteBytes add.assoc)
qed

lemma or_add: 
  fixes a b :: nat
  assumes "b < 16"
  shows "push_bit 4 a OR b = 16 * a + b"
proof -
  have "\<not> bit (push_bit 4 a) n \<or> \<not> bit b n" for n
  proof (cases "n < 4")
    case True
    then show ?thesis by (simp add: bit_push_bit_iff)
  next
    case False
    then have "(16::nat) \<le> 2 ^ n"
      using power_increasing [of 4 n "2::nat"] by simp
    with assms have "b div 2 ^ n = 0" by simp
    then show ?thesis by (simp add: bit_iff_odd)
  qed
  then have "push_bit 4 a + b = push_bit 4 a OR b"
    by (intro disjunctive_add_eq_or) (auto simp: bit_eq_iff bit_and_iff)
  then show ?thesis by (simp add: push_bit_eq_mult)
qed

lemma and15: "(x::nat) AND 0xf = x mod 16"
proof -
  have m: "(0xf::nat) = mask 4" by (simp add: mask_eq_exp_minus_1)
  show ?thesis unfolding m by (simp add: take_bit_eq_mask [symmetric] take_bit_eq_mod)
qed

lemma nibble_hi:
  fixes a b :: byte
  assumes "a < 16" and "b < 16"
  shows "drop_bit 4 (unat (of_nat (push_bit 4 (unat a) OR unat b) :: byte)) AND 0xf = unat a"
    and "unat (of_nat (push_bit 4 (unat a) OR unat b) :: byte) AND 0xf = unat b"
proof -
  have a: "unat a < 16" using assms(1) by (simp add: word_less_nat_alt)
  have b: "unat b < 16" using assms(2) by (simp add: word_less_nat_alt)
  have e: "push_bit 4 (unat a) OR unat b = 16 * unat a + unat b" using b by (rule or_add)
  have "16 * unat a + unat b < 256" using a b by simp
  then have u: "unat (of_nat (16 * unat a + unat b) :: byte) = 16 * unat a + unat b"
    unfolding unat_of_nat by simp
  show "drop_bit 4 (unat (of_nat (push_bit 4 (unat a) OR unat b) :: byte)) AND 0xf = unat a"
    unfolding e u using a b by (simp add: and15 drop_bit_eq_div)
  show "unat (of_nat (push_bit 4 (unat a) OR unat b) :: byte) AND 0xf = unat b"
    unfolding e u using a b by (simp add: and15)
qed

section \<open>The ditherer: what it leaves unchanged\<close>

lemma keepsTransparent_refl: "keepsTransparent d d"
  by (simp add: keepsTransparent_def)

lemma keepsTransparent_trans:
  "keepsTransparent a b \<Longrightarrow> keepsTransparent b c \<Longrightarrow> keepsTransparent a c"
  unfolding keepsTransparent_def by auto

lemma frame_refl: "frame s s dd"
  by (simp add: frame_def keepsTransparent_refl)

lemma frame_trans: "frame s s1 dd \<Longrightarrow> frame s1 s2 dd \<Longrightarrow> frame s s2 dd"
  unfolding frame_def using keepsTransparent_trans by auto

lemma keepsTransparent_update:
  assumes "4 * k + 3 < length d" and "\<not> d ! (4 * k + 3) < 128" and "c < 3"
  shows "keepsTransparent d (d[4 * k + c := v])"
proof -
  have alpha: "d[4 * k + c := v] ! (4 * j + 3) = d ! (4 * j + 3)" for j
  proof -
    have "4 * k + c \<noteq> 4 * j + 3" using assms(3) by presburger
    then show ?thesis by simp
  qed
  have chan: "d[4 * k + c := v] ! (4 * j + e) = d ! (4 * j + e)"
    if "d ! (4 * j + 3) < 128" and "e < 3" for j e
  proof -
    have "j \<noteq> k" using that(1) assms(2) by auto
    then have "4 * k + c \<noteq> 4 * j + e" using assms(3) that(2) by presburger
    then show ?thesis by simp
  qed
  show ?thesis
    unfolding keepsTransparent_def
    using alpha chan [of _ 0] chan [of _ 1] chan [of _ 2] by simp
qed


lemma frame_writeByte:
  assumes "dd < length s" and "4 * k + 3 < length (s ! dd)"
    and "\<not> s ! dd ! (4 * k + 3) < 128" and "c < 3"
  shows "frame s (writeByte s dd (4 * k + c) v) dd"
  using assms keepsTransparent_update [OF assms(2,3,4), of v]
  by (simp add: frame_def writeByte_def)

lemma frame_alpha:
  "frame s s' dd \<Longrightarrow> 4 * k + 3 < length (s ! dd) \<Longrightarrow> s' ! dd ! (4 * k + 3) = s ! dd ! (4 * k + 3)"
  by (simp add: frame_def keepsTransparent_def)

lemma frame_length: "frame s s' dd \<Longrightarrow> length (s' ! dd) = length (s ! dd)"
  by (simp add: frame_def keepsTransparent_def)

lemma frame_store_length: "frame s s' dd \<Longrightarrow> length s' = length s"
  by (simp add: frame_def)

lemma frame_addError3:
  assumes "dd < length s" and "4 * k + 3 < length (s ! dd)"
    and "\<not> s ! dd ! (4 * k + 3) < 128"
  shows "frame s (addError (addError (addError s dd (4 * k) eR wt) dd (4 * k + 1) eG wt)
                    dd (4 * k + 2) eB wt) dd"
proof -
  let ?s1 = "addError s dd (4 * k) eR wt"
  let ?s2 = "addError ?s1 dd (4 * k + 1) eG wt"
  let ?s3 = "addError ?s2 dd (4 * k + 2) eB wt"
  have f1: "frame s ?s1 dd"
    using frame_writeByte [OF assms, of 0] by (simp add: addError_def)
  have p1: "dd < length ?s1" "4 * k + 3 < length (?s1 ! dd)" "\<not> ?s1 ! dd ! (4 * k + 3) < 128"
    using assms frame_alpha [OF f1 assms(2)] frame_length [OF f1] frame_store_length [OF f1]
    by simp_all
  have f2: "frame ?s1 ?s2 dd"
    using frame_writeByte [OF p1, of 1] by (simp add: addError_def)
  have p2: "dd < length ?s2" "4 * k + 3 < length (?s2 ! dd)" "\<not> ?s2 ! dd ! (4 * k + 3) < 128"
    using p1 frame_alpha [OF f2 p1(2)] frame_length [OF f2] frame_store_length [OF f2]
    by simp_all
  have f3: "frame ?s2 ?s3 dd"
    using frame_writeByte [OF p2, of 2] by (simp add: addError_def)
  show ?thesis using f1 f2 f3 frame_trans by blast
qed

lemma pixel_in_range:
  fixes x y w h :: nat
  assumes "x < w" and "y < h"
  shows "4 * (y * w + x) + 3 < 4 * w * h"
proof -
  have "y * w + x < y * w + w" using assms(1) by simp
  also have "\<dots> = Suc y * w" by simp
  also have "\<dots> \<le> h * w" using assms(2) by (intro mult_le_mono1) simp
  finally have "y * w + x < w * h" by (simp add: mult.commute)
  then show ?thesis by simp
qed

lemma readByte_opaque: "readByte s dd i \<ge> 128 \<longleftrightarrow> \<not> s ! dd ! i < 128"
  by (simp add: readByte_def word_less_alt not_less)

lemma frame_distributeError:
  assumes "dd < length s" and "length (s ! dd) = 4 * w * h"
  shows "frame s (distributeError s dd w h eR eG eB x1 y1 wt) dd"
proof (cases "x1 \<ge> 0 \<and> x1 < int w \<and> y1 \<ge> 0 \<and> y1 < int h")
  case False
  then show ?thesis by (auto simp: distributeError_def frame_refl)
next
  case True
  define k where "k = nat y1 * w + nat x1"
  have idx: "nat ((y1 * int w + x1) * 4) = 4 * k"
    using True by (simp add: k_def nat_add_distrib nat_mult_distrib)
  have "nat x1 < w" "nat y1 < h" using True by linarith+
  from pixel_in_range [OF this] have r: "4 * k + 3 < length (s ! dd)"
    using assms(2) by (simp add: k_def)
  show ?thesis
  proof (cases "readByte s dd (4 * k + 3) \<ge> 128")
    case False
    with True idx show ?thesis by (simp add: distributeError_def frame_refl Let_def)
  next
    case op: True
    then have "\<not> s ! dd ! (4 * k + 3) < 128" by (simp add: readByte_opaque)
    from frame_addError3 [OF assms(1) r this] True idx op show ?thesis
      by (simp add: distributeError_def Let_def)
  qed
qed


lemma frame_step:
  assumes "frame s s1 dd" and "dd < length s" and "length (s ! dd) = 4 * w * h"
  shows "dd < length s1" and "length (s1 ! dd) = 4 * w * h"
  using assms frame_length [OF assms(1)] frame_store_length [OF assms(1)] by simp_all

lemma frame_ditherPixel:
  assumes "dd < length s" and "length (s ! dd) = 4 * w * h" and "x < w" and "y < h"
    and "ditherPixel s dd w h colorArray findClosest x y = Inr s'"
  shows "frame s s' dd"
proof (cases "readByte s dd ((y * w + x) * 4 + 3) < 128")
  case True
  with assms(5) show ?thesis by (simp add: ditherPixel_def Let_def frame_refl)
next
  case False
  define k where "k = y * w + x"
  have i: "(y * w + x) * 4 = 4 * k" by (simp add: k_def)
  have r: "4 * k + 3 < length (s ! dd)"
    using pixel_in_range [OF assms(3,4)] assms(2) by (simp add: k_def)
  from False have opq: "\<not> readByte s dd (4 * k + 3) < 128" unfolding i .
  then have op: "\<not> s ! dd ! (4 * k + 3) < 128"
    using readByte_opaque [of s dd "4 * k + 3"] by linarith
  define oldR where "oldR = readByte s dd (4 * k)"
  define oldG where "oldG = readByte s dd (4 * k + 1)"
  define oldB where "oldB = readByte s dd (4 * k + 2)"
  define pc where "pc = colorArray ! findClosest oldR oldG oldB"
  define s1 where "s1 = writeByte s dd (4 * k) (toUint8Clamp (of_int (p_r pc)))"
  define s2 where "s2 = writeByte s1 dd (4 * k + 1) (toUint8Clamp (of_int (p_g pc)))"
  define s3 where "s3 = writeByte s2 dd (4 * k + 2) (toUint8Clamp (of_int (p_b pc)))"
  define eR where "eR = oldR - p_r pc"
  define eG where "eG = oldG - p_g pc"
  define eB where "eB = oldB - p_b pc"
  define s4 where "s4 = distributeError s3 dd w h eR eG eB (int x + 1) (int y) (7 / 16)"
  define s5 where "s5 = distributeError s4 dd w h eR eG eB (int x - 1) (int y + 1) (3 / 16)"
  define s6 where "s6 = distributeError s5 dd w h eR eG eB (int x) (int y + 1) (5 / 16)"
  define s7 where "s7 = distributeError s6 dd w h eR eG eB (int x + 1) (int y + 1) (1 / 16)"
  have "ditherPixel s dd w h colorArray findClosest x y
          = (if readByte s dd (4 * k + 3) < 128 then Inr s
             else if findClosest oldR oldG oldB < length colorArray then Inr s7
             else Inl TypeError)"
    unfolding ditherPixel_def i Let_def s7_def s6_def s5_def s4_def s3_def s2_def s1_def
      eR_def eG_def eB_def pc_def oldR_def oldG_def oldB_def
    by (rule refl)
  with assms(5) opq have res: "s' = s7"
    by (simp split: if_splits)
  have f1: "frame s s1 dd"
    using frame_writeByte [OF assms(1) r op, of 0] by (simp add: s1_def)
  note q1 = frame_step [OF f1 assms(1,2)]
  have r1: "4 * k + 3 < length (s1 ! dd)" using r frame_length [OF f1] by simp
  have op1: "\<not> s1 ! dd ! (4 * k + 3) < 128" using op frame_alpha [OF f1 r] by simp
  have f2: "frame s1 s2 dd"
    using frame_writeByte [OF q1(1) r1 op1, of 1] by (simp add: s2_def)
  note q2 = frame_step [OF f2 q1]
  have r2: "4 * k + 3 < length (s2 ! dd)" using r1 frame_length [OF f2] by simp
  have op2: "\<not> s2 ! dd ! (4 * k + 3) < 128" using op1 frame_alpha [OF f2 r1] by simp
  have f3: "frame s2 s3 dd"
    using frame_writeByte [OF q2(1) r2 op2, of 2] by (simp add: s3_def)
  note q3 = frame_step [OF f3 q2]
  have f4: "frame s3 s4 dd" unfolding s4_def by (rule frame_distributeError [OF q3])
  note q4 = frame_step [OF f4 q3]
  have f5: "frame s4 s5 dd" unfolding s5_def by (rule frame_distributeError [OF q4])
  note q5 = frame_step [OF f5 q4]
  have f6: "frame s5 s6 dd" unfolding s6_def by (rule frame_distributeError [OF q5])
  note q6 = frame_step [OF f6 q5]
  have f7: "frame s6 s7 dd" unfolding s7_def by (rule frame_distributeError [OF q6])
  show ?thesis unfolding res
    using f1 f2 f3 f4 f5 f6 f7 frame_trans by blast
qed

lemma frame_ditherRow:
  assumes "dd < length s" and "length (s ! dd) = 4 * w * h" and "\<forall>x\<in>set xs. x < w" and "y < h"
    and "ditherRow dd w h colorArray findClosest y xs s = Inr s'"
  shows "frame s s' dd"
  using assms
proof (induction xs arbitrary: s)
  case Nil
  then show ?case by (simp add: frame_refl)
next
  case (Cons x xs)
  from Cons.prems(5) obtain s1 where
    p: "ditherPixel s dd w h colorArray findClosest x y = Inr s1"
    and rest: "ditherRow dd w h colorArray findClosest y xs s1 = Inr s'"
    by (auto split: sum.splits)
  have f1: "frame s s1 dd"
    using frame_ditherPixel [OF Cons.prems(1,2) _ Cons.prems(4) p] Cons.prems(3) by simp
  note q = frame_step [OF f1 Cons.prems(1,2)]
  have "frame s1 s' dd"
    using Cons.IH [OF q _ Cons.prems(4) rest] Cons.prems(3) by simp
  with f1 show ?case by (rule frame_trans)
qed

lemma frame_ditherRows:
  assumes "dd < length s" and "length (s ! dd) = 4 * w * h" and "\<forall>y\<in>set ys. y < h"
    and "ditherRows dd w h colorArray findClosest ys s = Inr s'"
  shows "frame s s' dd"
  using assms
proof (induction ys arbitrary: s)
  case Nil
  then show ?case by (simp add: frame_refl)
next
  case (Cons y ys)
  from Cons.prems(4) obtain s1 where
    p: "ditherRow dd w h colorArray findClosest y [0..<w] s = Inr s1"
    and rest: "ditherRows dd w h colorArray findClosest ys s1 = Inr s'"
    by (auto split: sum.splits)
  have f1: "frame s s1 dd"
    using frame_ditherRow [OF Cons.prems(1,2) _ _ p] Cons.prems(3) by simp
  note q = frame_step [OF f1 Cons.prems(1,2)]
  have "frame s1 s' dd"
    using Cons.IH [OF q _ rest] Cons.prems(3) by simp
  with f1 show ?case by (rule frame_trans)
qed

lemma dithering_frame:
  assumes "length (s ! a) = 4 * w * h"
    and "applyFloydSteinbergDithering s a w h colorArray findClosest = Inr (s', dd)"
  shows "dd = length s \<and> length s' = Suc (length s)
       \<and> (\<forall>a' < length s. s' ! a' = s ! a')
       \<and> keepsTransparent (s ! a) (s' ! dd)"
proof -
  let ?s0 = "s @ [s ! a]"
  from assms(2) have dd: "dd = length s"
    and run: "ditherRows (length s) w h colorArray findClosest [0..<h] ?s0 = Inr s'"
    by (auto simp: applyFloydSteinbergDithering_def allocCopy_def split: sum.splits)
  have "frame ?s0 s' (length s)"
    by (rule frame_ditherRows [OF _ _ _ run]) (simp_all add: assms(1))
  then show ?thesis
    using dd by (auto simp: frame_def nth_append)
qed

text \<open>
  Claim C7: the ditherer returns a new array (its address is not one of the store it was
  given, so it is not the input), every array of that store, the input among them, is
  unchanged, and in the returned array every pixel whose input alpha is below 128 has the
  four input bytes.
\<close>

theorem dithering_frame_transparent:
  assumes "a < length s" and "length (s ! a) = 4 * w * h"
    and "applyFloydSteinbergDithering s a w h colorArray findClosest = Inr (s', out)"
  shows "out = length s \<and> out \<noteq> a \<and> length s' = length s + 1
       \<and> (\<forall>a' < length s. s' ! a' = s ! a')
       \<and> length (s' ! out) = length (s ! a)
       \<and> (\<forall>x < w. \<forall>y < h. s ! a ! ((y * w + x) * 4 + 3) < 128 \<longrightarrow>
             s' ! out ! ((y * w + x) * 4) = s ! a ! ((y * w + x) * 4)
           \<and> s' ! out ! ((y * w + x) * 4 + 1) = s ! a ! ((y * w + x) * 4 + 1)
           \<and> s' ! out ! ((y * w + x) * 4 + 2) = s ! a ! ((y * w + x) * 4 + 2)
           \<and> s' ! out ! ((y * w + x) * 4 + 3) = s ! a ! ((y * w + x) * 4 + 3))"
proof -
  from dithering_frame [OF assms(2,3)] have out: "out = length s"
    and len: "length s' = Suc (length s)"
    and old: "\<forall>a' < length s. s' ! a' = s ! a'"
    and kt: "keepsTransparent (s ! a) (s' ! out)"
    by blast+
  have "s' ! out ! (4 * k + c) = s ! a ! (4 * k + c)"
    if "x < w" "y < h" "k = y * w + x" "s ! a ! (4 * k + 3) < 128" "c < 4" for x y k c
  proof -
    have r: "4 * k + 3 < length (s ! a)"
      using pixel_in_range [OF that(1,2)] assms(2) that(3) by simp
    from that(5) consider "c = 0" | "c = 1" | "c = 2" | "c = 3" by linarith
    then show ?thesis
      using kt r that(4) unfolding keepsTransparent_def by cases auto
  qed
  note tr = this
  have "\<forall>x < w. \<forall>y < h. s ! a ! ((y * w + x) * 4 + 3) < 128 \<longrightarrow>
             s' ! out ! ((y * w + x) * 4) = s ! a ! ((y * w + x) * 4)
           \<and> s' ! out ! ((y * w + x) * 4 + 1) = s ! a ! ((y * w + x) * 4 + 1)
           \<and> s' ! out ! ((y * w + x) * 4 + 2) = s ! a ! ((y * w + x) * 4 + 2)
           \<and> s' ! out ! ((y * w + x) * 4 + 3) = s ! a ! ((y * w + x) * 4 + 3)"
  proof (intro allI impI)
    fix x y
    assume x: "x < w" and y: "y < h" and t: "s ! a ! ((y * w + x) * 4 + 3) < 128"
    have e: "(y * w + x) * 4 = 4 * (y * w + x)" by simp
    from t have t': "s ! a ! (4 * (y * w + x) + 3) < 128" unfolding e .
    show "s' ! out ! ((y * w + x) * 4) = s ! a ! ((y * w + x) * 4)
           \<and> s' ! out ! ((y * w + x) * 4 + 1) = s ! a ! ((y * w + x) * 4 + 1)
           \<and> s' ! out ! ((y * w + x) * 4 + 2) = s ! a ! ((y * w + x) * 4 + 2)
           \<and> s' ! out ! ((y * w + x) * 4 + 3) = s ! a ! ((y * w + x) * 4 + 3)"
      unfolding e
      using tr [OF x y refl t', of 0] tr [OF x y refl t', of 1] tr [OF x y refl t', of 2]
        tr [OF x y refl t', of 3]
      by simp
  qed
  moreover have "length (s' ! out) = length (s ! a)"
    using kt by (simp add: keepsTransparent_def)
  ultimately show ?thesis using out len old assms(1) by simp
qed

text \<open>
  A 2x2 image whose second pixel is transparent, with a two-colour palette and a matcher
  by the red channel: the error of the first pixel reaches the two pixels below and leaves
  the transparent one alone.
\<close>

theorem dithering_frame_transparent_witness:
  "applyFloydSteinbergDithering
     [[200, 100, 50, 255,  9, 8, 7, 0,  10, 20, 30, 128,  90, 90, 90, 255]] 0 2 2
     [black, \<lparr>p_r = 255, p_g = 255, p_b = 255\<rparr>] (\<lambda>r g b. if r < 128 then 0 else 1)
   = Inr ([[200, 100, 50, 255,  9, 8, 7, 0,  10, 20, 30, 128,  90, 90, 90, 255],
           [255, 255, 255, 255,  9, 8, 7, 0,  0, 0, 0, 128,  0, 0, 0, 255]], 1)
   \<and> (1::nat) \<noteq> 0
   \<and> [[200, 100, 50, 255,  9, 8, 7, 0,  10, 20, 30, 128,  90, 90, 90, 255],
       [255, 255, 255, 255,  9, 8, 7, 0,  0, 0, 0, 128,  0, 0, 0, 255 :: byte]] ! 0
      = [[200, 100, 50, 255,  9, 8, 7, 0,  10, 20, 30, 128,  90, 90, 90, 255]] ! 0"
proof -
  let ?d = "[200, 100, 50, 255,  9, 8, 7, 0,  10, 20, 30, 128,  90, 90, 90, 255] :: byte list"
  let ?o = "[255, 255, 255, 255,  9, 8, 7, 0,  0, 0, 0, 128,  0, 0, 0, 255] :: byte list"
  have run: "applyFloydSteinbergDithering [?d] 0 2 2
     [black, \<lparr>p_r = 255, p_g = 255, p_b = 255\<rparr>] (\<lambda>r g b. if r < 128 then 0 else 1)
     = Inr ([?d, ?o], 1)"
    by code_simp
  have a: "0 < length [?d]" by simp
  have l: "length ([?d] ! 0) = 4 * 2 * 2" by simp
  from dithering_frame_transparent [OF a l run]
  have "(1::nat) \<noteq> 0" and "\<forall>a' < length [?d]. [?d, ?o] ! a' = [?d] ! a'"
    by blast+
  then show ?thesis using run by simp
qed

section \<open>The nearest-colour matcher\<close>

lemma findClosestLoop_scan:
  assumes "i \<le> length colorArray" and "scanState colorArray r g b i minDist bestIndex"
    and "colorArray \<noteq> []"
  shows "\<exists>m. scanState colorArray r g b (length colorArray) (Some m)
               (findClosestLoop (drop i colorArray) i r g b minDist bestIndex)"
  using assms(1,2)
proof (induction "length colorArray - i" arbitrary: i minDist bestIndex)
  case 0
  then have i: "i = length colorArray" by simp
  with 0(3) assms(3) obtain m where "minDist = Some m"
    by (cases minDist) (auto simp: scanState_def)
  with 0(3) i show ?case by auto
next
  case (Suc n)
  then have lt: "i < length colorArray" by simp
  let ?d = "paletteDistance colorArray r g b i"
  have dr: "drop i colorArray = colorArray ! i # drop (Suc i) colorArray"
    using lt by (simp add: Cons_nth_drop_Suc)
  have n: "n = length colorArray - Suc i" using Suc(2) by simp
  have step: "findClosestLoop (drop i colorArray) i r g b minDist bestIndex
    = (if (case minDist of None \<Rightarrow> True | Some m \<Rightarrow> ?d < m)
       then findClosestLoop (drop (Suc i) colorArray) (Suc i) r g b (Some ?d) i
       else findClosestLoop (drop (Suc i) colorArray) (Suc i) r g b minDist bestIndex)"
    unfolding paletteDistance_def by (simp add: dr Let_def)
  show ?case
  proof (cases "case minDist of None \<Rightarrow> True | Some m \<Rightarrow> ?d < m")
    case True
    have "scanState colorArray r g b (Suc i) (Some ?d) i"
    proof (cases minDist)
      case None
      with Suc(4) show ?thesis by (simp add: scanState_def)
    next
      case (Some m)
      with True have less: "?d < m" by simp
      from Some Suc(4) have le: "\<forall>j < i. m \<le> paletteDistance colorArray r g b j"
        by (auto simp: scanState_def)
      have "?d < paletteDistance colorArray r g b j" if "j < i" for j
        using le that less by force
      then show ?thesis
        by (auto simp: scanState_def less_Suc_eq intro: less_imp_le)
    qed
    from Suc(1) [OF n _ this] lt True show ?thesis
      unfolding step by simp
  next
    case False
    then obtain m where m: "minDist = Some m" and ge: "m \<le> ?d"
      by (cases minDist) auto
    have "scanState colorArray r g b (Suc i) minDist bestIndex"
      using Suc(4) m ge by (auto simp: scanState_def less_Suc_eq)
    from Suc(1) [OF n _ this] lt False show ?thesis
      unfolding step by simp
  qed
qed

lemma findClosestColor_scan:
  assumes "colorArray \<noteq> []"
  shows "findClosestColor colorArray r g b < length colorArray
    \<and> (\<forall>j < length colorArray.
          paletteDistance colorArray r g b (findClosestColor colorArray r g b)
            \<le> paletteDistance colorArray r g b j)
    \<and> (\<forall>j < findClosestColor colorArray r g b.
          paletteDistance colorArray r g b (findClosestColor colorArray r g b)
            < paletteDistance colorArray r g b j)"
proof -
  have "scanState colorArray r g b 0 None 0" by (simp add: scanState_def)
  from findClosestLoop_scan [OF _ this assms]
  show ?thesis by (auto simp: findClosestColor_def scanState_def)
qed





section \<open>Indices in the encoded files\<close>

lemma findClosestColor_less:
  "colorArray \<noteq> [] \<Longrightarrow> findClosestColor colorArray r g b < length colorArray"
  using findClosestColor_scan by blast

lemma pixelIndex_unat:
  assumes "length colorArray = n" and "0 < n" and "n \<le> 256"
  shows "unat (pixelIndex d (findClosestColor colorArray) i)
         = (if d ! (i + 3) < 128 then 0
            else findClosestColor colorArray (uint (d ! i)) (uint (d ! (i + 1))) (uint (d ! (i + 2))))"
    and "unat (pixelIndex d (findClosestColor colorArray) i) < n"
proof -
  have ne: "colorArray \<noteq> []" using assms by auto
  have lt: "findClosestColor colorArray r g b < n" for r g b
    using findClosestColor_less [OF ne, of r g b] assms by simp
  then have "findClosestColor colorArray r g b < 256" for r g b
    using assms(3) by (meson less_le_trans)
  then have m: "findClosestColor colorArray r g b mod 256 = findClosestColor colorArray r g b"
    for r g b by simp
  show "unat (pixelIndex d (findClosestColor colorArray) i)
         = (if d ! (i + 3) < 128 then 0
            else findClosestColor colorArray (uint (d ! i)) (uint (d ! (i + 1))) (uint (d ! (i + 2))))"
    by (simp add: pixelIndex_def unat_of_nat m)
  then show "unat (pixelIndex d (findClosestColor colorArray) i) < n"
    using lt assms(2) by simp
qed

lemma pixelIndex_less16:
  assumes "length colorArray = 16"
  shows "pixelIndex d (findClosestColor colorArray) i < 16"
  using pixelIndex_unat(2) [OF assms, of d i] by (simp add: word_less_nat_alt)

lemma storedIndex8_encode:
  assumes "x < w" and "y < h"
  shows "storedIndex8 (encodeBMP8BitFromData d w h colorArray findClosest) w x y
         = unat (assignIndices d w h findClosest ! (y * w + x))"
  using encodeBMP8BitFromData_index [OF assms] by (simp add: storedIndex8_def)

lemma packedByte_unat:
  assumes "pixelIndices ! (y * w + x) < 16"
    and "x + 1 < w \<Longrightarrow> pixelIndices ! (y * w + x + 1) < 16"
  shows "unat (packedByte pixelIndices w y x)
         = 16 * unat (pixelIndices ! (y * w + x))
           + (if x + 1 < w then unat (pixelIndices ! (y * w + x + 1)) else 0)"
proof -
  let ?a = "unat (pixelIndices ! (y * w + x))"
  let ?b = "if x + 1 < w then unat (pixelIndices ! (y * w + x + 1)) else 0"
  have a: "?a < 16" using assms(1) by (simp add: word_less_nat_alt)
  have b: "?b < 16" using assms(2) by (simp add: word_less_nat_alt)
  have e: "push_bit 4 ?a OR ?b = 16 * ?a + ?b" using b by (rule or_add)
  have "16 * ?a + ?b < 256" using a b by linarith
  then have "unat (of_nat (16 * ?a + ?b) :: byte) = 16 * ?a + ?b"
    unfolding unat_of_nat by simp
  then show ?thesis unfolding packedByte_def Let_def e .
qed

lemma ditherPixel_ok:
  assumes "\<forall>r g b. findClosest r g b < length colorArray"
  shows "\<exists>s'. ditherPixel s dd w h colorArray findClosest x y = Inr s'"
  using assms by (simp add: ditherPixel_def Let_def)

lemma ditherRow_ok:
  assumes "\<forall>r g b. findClosest r g b < length colorArray"
  shows "\<exists>s'. ditherRow dd w h colorArray findClosest y xs s = Inr s'"
proof (induction xs arbitrary: s)
  case Nil
  then show ?case by simp
next
  case (Cons x xs)
  from ditherPixel_ok [OF assms] obtain s1 where
    "ditherPixel s dd w h colorArray findClosest x y = Inr s1" by blast
  with Cons [of s1] show ?case by simp
qed

lemma ditherRows_ok:
  assumes "\<forall>r g b. findClosest r g b < length colorArray"
  shows "\<exists>s'. ditherRows dd w h colorArray findClosest ys s = Inr s'"
proof (induction ys arbitrary: s)
  case Nil
  then show ?case by simp
next
  case (Cons y ys)
  from ditherRow_ok [OF assms] obtain s1 where
    "ditherRow dd w h colorArray findClosest y [0..<w] s = Inr s1" by blast
  with Cons [of s1] show ?case by simp
qed

lemma indexSource_ok:
  assumes "colorArray \<noteq> []"
  shows "\<exists>d. indexSource img dither colorArray (findClosestColor colorArray) = Inr d"
proof -
  have v: "\<forall>r g b. findClosestColor colorArray r g b < length colorArray"
    using assms by (simp add: findClosestColor_less)
  from ditherRows_ok [OF v]
  obtain s' where "ditherRows 1 (width img) (height img) colorArray (findClosestColor colorArray)
      [0..<height img] [data img, data img] = Inr s'" by blast
  then show ?thesis
    by (simp add: indexSource_def ditheredData_def applyFloydSteinbergDithering_def allocCopy_def)
qed

lemma indexSource_keeps:
  assumes "wellFormed img" and "indexSource img dither colorArray findClosest = Inr d"
  shows "keepsTransparent (data img) d"
proof (cases dither)
  case False
  with assms(2) show ?thesis by (simp add: indexSource_def keepsTransparent_refl)
next
  case True
  with assms(2) obtain s' dd where
    run: "applyFloydSteinbergDithering [data img] 0 (width img) (height img) colorArray findClosest
            = Inr (s', dd)" and d: "d = s' ! dd"
    by (auto simp: indexSource_def ditheredData_def split: sum.splits)
  have l: "length ([data img] ! 0) = 4 * width img * height img"
    using assms(1) by (simp add: wellFormed_def)
  from dithering_frame [OF l run] d show ?thesis by auto
qed

lemma indexSource_alpha:
  assumes "wellFormed img" and "indexSource img dither colorArray findClosest = Inr d"
    and "x < width img" and "y < height img"
  shows "d ! ((y * width img + x) * 4 + 3) = pixelAlpha img x y"
    and "length d = 4 * width img * height img"
proof -
  have kt: "keepsTransparent (data img) d" using assms(1,2) by (rule indexSource_keeps)
  have l: "length (data img) = 4 * width img * height img"
    using assms(1) by (simp add: wellFormed_def)
  have r: "4 * (y * width img + x) + 3 < length (data img)"
    using pixel_in_range [OF assms(3,4)] l by simp
  have e: "(y * width img + x) * 4 = 4 * (y * width img + x)" by simp
  show "d ! ((y * width img + x) * 4 + 3) = pixelAlpha img x y"
    unfolding e pixelAlpha_def using kt r unfolding keepsTransparent_def by blast
  show "length d = 4 * width img * height img"
    using kt l by (simp add: keepsTransparent_def)
qed

lemma assignIndices_transparent:
  assumes "x < w" and "y < h" and "d ! ((y * w + x) * 4 + 3) < 128"
  shows "assignIndices d w h findClosest ! (y * w + x) = 0"
  using assignIndices_nth [OF assms(1,2), of d findClosest] assms(3) by (simp add: pixelIndex_def)

lemma storedIndex4_encode:
  assumes "x < w" and "y < h"
    and "\<And>x'. x' < w \<Longrightarrow> assignIndices d w h findClosest ! (y * w + x') < 16"
  shows "storedIndex4 (encodeBMP4BitFromData d w h colorArray findClosest) w x y
         = unat (assignIndices d w h findClosest ! (y * w + x))"
proof -
  let ?ix = "assignIndices d w h findClosest"
  let ?k = "x div 2"
  have k: "?k < (w + 1) div 2" using assms(1) by linarith
  have byte: "encodeBMP4BitFromData d w h colorArray findClosest ! (54 + 16 * 4 + y * rowSize 4 w + ?k)
        = packedByte ?ix w y (2 * ?k)"
    by (rule encodeBMP4BitFromData_index [OF k assms(2)])
  have lt: "unat (?ix ! (y * w + x')) < 16" if "x' < w" for x'
    using assms(3) [OF that] by (simp add: word_less_nat_alt)
  show ?thesis
  proof (cases "even x")
    case True
    then have x: "2 * ?k = x" by simp
    have u: "unat (packedByte ?ix w y x)
         = 16 * unat (?ix ! (y * w + x))
           + (if x + 1 < w then unat (?ix ! (y * w + x + 1)) else 0)"
    proof (rule packedByte_unat)
      show "?ix ! (y * w + x) < 16" using assms(3) [OF assms(1)] .
      show "?ix ! (y * w + x + 1) < 16" if "x + 1 < w"
        using assms(3) [OF that] by (simp add: add.assoc)
    qed
    have b: "(if x + 1 < w then unat (?ix ! (y * w + x + 1)) else 0) < 16"
      using lt [of "x + 1"] by (simp add: add.assoc)
    show ?thesis
      using True b lt [OF assms(1)] unfolding storedIndex4_def Let_def byte x u
      by (simp add: and15 drop_bit_eq_div)
  next
    case False
    then have x: "2 * ?k + 1 = x" by presburger
    then have x': "2 * ?k < w" "2 * ?k + 1 < w" using assms(1) by linarith+
    have u: "unat (packedByte ?ix w y (2 * ?k))
         = 16 * unat (?ix ! (y * w + 2 * ?k))
           + (if 2 * ?k + 1 < w then unat (?ix ! (y * w + 2 * ?k + 1)) else 0)"
    proof (rule packedByte_unat)
      show "?ix ! (y * w + 2 * ?k) < 16" using assms(3) [OF x'(1)] .
      show "?ix ! (y * w + 2 * ?k + 1) < 16"
        using assms(3) [OF x'(2)] by (simp add: add.assoc)
    qed
    have e: "y * w + 2 * ?k + 1 = y * w + x" using x by linarith
    show ?thesis
      using False lt [OF assms(1)] x' unfolding storedIndex4_def Let_def byte u e
      by (simp add: and15)
  qed
qed

lemma build8_cases:
  "build8BitPalette d = Inr (colorArray, findClosest) \<Longrightarrow>
     medianCutQuantize d 256 = Inr colorArray \<and> findClosest = findClosestColor colorArray
     \<and> length colorArray = 256"
  by (auto simp: build8BitPalette_def medianCutQuantize_length split: sum.splits)

lemma build4_cases:
  "build4BitPalette d = Inr (colorArray, findClosest) \<Longrightarrow>
     medianCutQuantize d 16 = Inr colorArray \<and> findClosest = findClosestColor colorArray
     \<and> length colorArray = 16"
  by (auto simp: build4BitPalette_def medianCutQuantize_length split: sum.splits)

lemma encodeBMP8Bit_cases:
  assumes "encodeBMP8Bit img dither = Inr file"
  obtains colorArray d where "medianCutQuantize (data img) 256 = Inr colorArray"
    and "length colorArray = 256"
    and "indexSource img dither colorArray (findClosestColor colorArray) = Inr d"
    and "file = encodeBMP8BitFromData d (width img) (height img) colorArray
                  (findClosestColor colorArray)"
proof -
  from assms obtain colorArray findClosest d where
    b: "build8BitPalette (data img) = Inr (colorArray, findClosest)"
    and i: "indexSource img dither colorArray findClosest = Inr d"
    and f: "file = encodeBMP8BitFromData d (width img) (height img) colorArray findClosest"
    by (auto simp: encodeBMP8Bit_def split: sum.splits)
  from build8_cases [OF b] i f that show thesis by blast
qed

lemma encodeBMP4Bit_cases:
  assumes "encodeBMP4Bit img aggressive = Inr file"
  obtains colorArray d where "medianCutQuantize (data img) 16 = Inr colorArray"
    and "length colorArray = 16"
    and "indexSource img aggressive colorArray (findClosestColor colorArray) = Inr d"
    and "file = encodeBMP4BitFromData d (width img) (height img) colorArray
                  (findClosestColor colorArray)"
proof -
  from assms obtain colorArray findClosest d where
    b: "build4BitPalette (data img) = Inr (colorArray, findClosest)"
    and i: "indexSource img aggressive colorArray findClosest = Inr d"
    and f: "file = encodeBMP4BitFromData d (width img) (height img) colorArray findClosest"
    by (auto simp: encodeBMP4Bit_def split: sum.splits)
  from build4_cases [OF b] i f that show thesis by blast
qed

lemma assignIndices_less16:
  assumes "length colorArray = 16" and "x < w" and "y < h"
  shows "assignIndices d w h (findClosestColor colorArray) ! (y * w + x) < 16"
  using assignIndices_nth [OF assms(2,3)] pixelIndex_less16 [OF assms(1)] by simp

lemma encodeBMP8Bit_ok:
  assumes "medianCutQuantize (data img) 256 = Inr colorArray"
  shows "\<exists>d. indexSource img dither colorArray (findClosestColor colorArray) = Inr d
     \<and> encodeBMP8Bit img dither
         = Inr (encodeBMP8BitFromData d (width img) (height img) colorArray
                  (findClosestColor colorArray))"
proof -
  have "colorArray \<noteq> []" using medianCutQuantize_length [OF assms] by auto
  from indexSource_ok [OF this] obtain d where
    "indexSource img dither colorArray (findClosestColor colorArray) = Inr d" by blast
  then show ?thesis using assms by (simp add: encodeBMP8Bit_def build8BitPalette_def)
qed

lemma encodeBMP4Bit_ok:
  assumes "medianCutQuantize (data img) 16 = Inr colorArray"
  shows "\<exists>d. indexSource img aggressive colorArray (findClosestColor colorArray) = Inr d
     \<and> encodeBMP4Bit img aggressive
         = Inr (encodeBMP4BitFromData d (width img) (height img) colorArray
                  (findClosestColor colorArray))"
proof -
  have "colorArray \<noteq> []" using medianCutQuantize_length [OF assms] by auto
  from indexSource_ok [OF this] obtain d where
    "indexSource img aggressive colorArray (findClosestColor colorArray) = Inr d" by blast
  then show ?thesis using assms by (simp add: encodeBMP4Bit_def build4BitPalette_def)
qed

text \<open>
  Claim C6: a pixel of the image whose alpha is below 128 has alpha below 128 in the buffer
  the indices are assigned from (the image's own buffer, or its dithered copy), it gets
  index 0 in the index array, and the 8-bit and the 4-bit file store index 0 for it, with
  dithering on or off.
\<close>

theorem transparent_pixels_index0:
  assumes "wellFormed img" and "x < width img" and "y < height img"
    and "pixelAlpha img x y < 128"
  shows "(\<forall>colorArray findClosest d.
            indexSource img dither colorArray findClosest = Inr d \<longrightarrow>
              d ! ((y * width img + x) * 4 + 3) < 128
            \<and> assignIndices d (width img) (height img) findClosest ! (y * width img + x) = 0)
       \<and> (case encodeBMP8Bit img dither of
             Inl e \<Rightarrow> True | Inr file \<Rightarrow> storedIndex8 file (width img) x y = 0)
       \<and> (case encodeBMP4Bit img dither of
             Inl e \<Rightarrow> True | Inr file \<Rightarrow> storedIndex4 file (width img) x y = 0)"
proof -
  let ?w = "width img" and ?h = "height img"
  have src: "d ! ((y * ?w + x) * 4 + 3) < 128
       \<and> assignIndices d ?w ?h findClosest ! (y * ?w + x) = 0"
    if "indexSource img dither colorArray findClosest = Inr d" for colorArray findClosest d
  proof -
    have "d ! ((y * ?w + x) * 4 + 3) < 128"
      using indexSource_alpha(1) [OF assms(1) that assms(2,3)] assms(4) by simp
    then show ?thesis using assignIndices_transparent [OF assms(2,3)] by simp
  qed
  have e8: "storedIndex8 bmp ?w x y = 0" if "encodeBMP8Bit img dither = Inr bmp" for bmp
  proof -
    from that obtain colorArray d where
      i: "indexSource img dither colorArray (findClosestColor colorArray) = Inr d"
      and f: "bmp = encodeBMP8BitFromData d ?w ?h colorArray (findClosestColor colorArray)"
      by (rule encodeBMP8Bit_cases)
    show ?thesis unfolding f storedIndex8_encode [OF assms(2,3)] using src [OF i] by simp
  qed
  have e4: "storedIndex4 bmp ?w x y = 0" if "encodeBMP4Bit img dither = Inr bmp" for bmp
  proof -
    from that obtain colorArray d where
      l: "length colorArray = 16"
      and i: "indexSource img dither colorArray (findClosestColor colorArray) = Inr d"
      and f: "bmp = encodeBMP4BitFromData d ?w ?h colorArray (findClosestColor colorArray)"
      by (rule encodeBMP4Bit_cases)
    have "storedIndex4 bmp ?w x y
          = unat (assignIndices d ?w ?h (findClosestColor colorArray) ! (y * ?w + x))"
      unfolding f by (rule storedIndex4_encode [OF assms(2,3)])
        (rule assignIndices_less16 [OF l _ assms(3)])
    then show ?thesis using src [OF i] by simp
  qed
  show ?thesis using src e8 e4 by (auto split: sum.splits)
qed

lemma transparent1x1: "medianCutQuantize [9, 8, 7, 0] 256 = Inr (replicate 256 black)"
  "medianCutQuantize [9, 8, 7, 0] 16 = Inr (replicate 16 black)"
  by (simp_all add: medianCutQuantize_def)

theorem transparent_pixels_index0_witness:
  "wellFormed \<lparr>width = 1, height = 1, data = [9, 8, 7, 0]\<rparr>
   \<and> pixelAlpha \<lparr>width = 1, height = 1, data = [9, 8, 7, 0]\<rparr> 0 0 < 128
   \<and> (\<exists>file. encodeBMP8Bit \<lparr>width = 1, height = 1, data = [9, 8, 7, 0]\<rparr> True = Inr file
          \<and> storedIndex8 file 1 0 0 = 0)
   \<and> (\<exists>file. encodeBMP4Bit \<lparr>width = 1, height = 1, data = [9, 8, 7, 0]\<rparr> True = Inr file
          \<and> storedIndex4 file 1 0 0 = 0)"
proof -
  let ?img = "\<lparr>width = 1, height = 1, data = [9, 8, 7, 0]\<rparr>"
  have wf: "wellFormed ?img" by (simp add: wellFormed_def)
  have al: "pixelAlpha ?img 0 0 < 128" by (simp add: pixelAlpha_def)
  have x: "0 < width ?img" and y: "0 < height ?img" by simp_all
  note t = transparent_pixels_index0 [OF wf x y al, of True]
  obtain f8 where f8: "encodeBMP8Bit ?img True = Inr f8"
    using encodeBMP8Bit_ok [of ?img "replicate 256 black" True] transparent1x1(1) by auto
  obtain f4 where f4: "encodeBMP4Bit ?img True = Inr f4"
    using encodeBMP4Bit_ok [of ?img "replicate 16 black" True] transparent1x1(2) by auto
  from t f8 have "storedIndex8 f8 1 0 0 = 0" by simp
  moreover from t f4 have "storedIndex4 f4 1 0 0 = 0" by simp
  ultimately show ?thesis using wf al f8 f4 by blast
qed

text \<open>
  Claim C9: in a 4-bit file, byte \<open>k\<close> of row \<open>y\<close> holds the index of pixel \<open>2 k\<close> in its
  high nibble and the index of pixel \<open>2 k + 1\<close> in its low nibble, or 0 there when the
  row has no pixel \<open>2 k + 1\<close> (the last byte of a row of odd width); the palette has 16
  entries and every index is below 16.
\<close>

theorem nibble_packing:
  assumes "encodeBMP4Bit img aggressive = Inr file" and "y < height img"
    and "k < (width img + 1) div 2"
  shows "\<exists>colorArray d.
     medianCutQuantize (data img) 16 = Inr colorArray \<and> length colorArray = 16
     \<and> indexSource img aggressive colorArray (findClosestColor colorArray) = Inr d
     \<and> (let pixelIndices = assignIndices d (width img) (height img) (findClosestColor colorArray);
             idx1 = unat (pixelIndices ! (y * width img + 2 * k));
             idx2 = (if 2 * k + 1 < width img
                     then unat (pixelIndices ! (y * width img + 2 * k + 1)) else 0);
             byte = unat (file ! (54 + 16 * 4 + y * rowSize 4 (width img) + k))
         in idx1 < 16 \<and> idx2 < 16 \<and> byte = 16 * idx1 + idx2
            \<and> drop_bit 4 byte AND 0xf = idx1 \<and> byte AND 0xf = idx2)"
proof -
  let ?w = "width img" and ?h = "height img"
  from assms(1) obtain colorArray d where
    m: "medianCutQuantize (data img) 16 = Inr colorArray"
    and l: "length colorArray = 16"
    and i: "indexSource img aggressive colorArray (findClosestColor colorArray) = Inr d"
    and f: "file = encodeBMP4BitFromData d ?w ?h colorArray (findClosestColor colorArray)"
    by (rule encodeBMP4Bit_cases)
  let ?ix = "assignIndices d ?w ?h (findClosestColor colorArray)"
  let ?idx1 = "unat (?ix ! (y * ?w + 2 * k))"
  let ?idx2 = "if 2 * k + 1 < ?w then unat (?ix ! (y * ?w + 2 * k + 1)) else 0"
  let ?byte = "unat (file ! (54 + 16 * 4 + y * rowSize 4 ?w + k))"
  have k2: "2 * k < ?w" using assms(3) by linarith
  have lt: "?ix ! (y * ?w + x) < 16" if "x < ?w" for x
    using assignIndices_less16 [OF l that assms(2)] .
  have a: "?idx1 < 16" using lt [OF k2] by (simp add: word_less_nat_alt)
  have b: "?idx2 < 16" using lt [of "2 * k + 1"] by (simp add: word_less_nat_alt add.assoc)
  have "file ! (54 + 16 * 4 + y * rowSize 4 ?w + k) = packedByte ?ix ?w y (2 * k)"
    unfolding f by (rule encodeBMP4BitFromData_index [OF assms(3,2)])
  moreover have "unat (packedByte ?ix ?w y (2 * k)) = 16 * ?idx1 + ?idx2"
  proof (rule packedByte_unat)
    show "?ix ! (y * ?w + 2 * k) < 16" using lt [OF k2] .
    show "?ix ! (y * ?w + 2 * k + 1) < 16" if "2 * k + 1 < ?w"
      using lt [OF that] by (simp add: add.assoc)
  qed
  ultimately have byte: "?byte = 16 * ?idx1 + ?idx2" by simp
  have hi: "drop_bit 4 ?byte AND 0xf = ?idx1"
    unfolding byte using a b by (simp add: and15 drop_bit_eq_div)
  have lo: "?byte AND 0xf = ?idx2"
    unfolding byte using a b by (simp add: and15)
  show ?thesis
    using m l i a b byte hi lo unfolding Let_def by blast
qed

lemma palette3x1:
  "medianCutQuantize [255, 0, 0, 255,  0, 0, 0, 0,  255, 255, 255, 255] 16
     = Inr (black # replicate 14 \<lparr>p_r = 255, p_g = 0, p_b = 0\<rparr>
            @ [\<lparr>p_r = 255, p_g = 255, p_b = 255\<rparr>])"
  by code_simp

text \<open>A row of three pixels, the second transparent: both bytes have the low nibble 0.\<close>

theorem nibble_packing_witness:
  "\<exists>file. encodeBMP4Bit \<lparr>width = 3, height = 1,
                data = [255, 0, 0, 255,  0, 0, 0, 0,  255, 255, 255, 255]\<rparr> False = Inr file
     \<and> unat (file ! (54 + 16 * 4 + 0 * rowSize 4 3 + 1)) AND 0xf = 0
     \<and> unat (file ! (54 + 16 * 4 + 0 * rowSize 4 3 + 0)) AND 0xf = 0"
proof -
  let ?img = "\<lparr>width = 3, height = 1, data = [255, 0, 0, 255,  0, 0, 0, 0,  255, 255, 255, 255]\<rparr>"
  have "medianCutQuantize (data ?img) 16
     = Inr (black # replicate 14 \<lparr>p_r = 255, p_g = 0, p_b = 0\<rparr>
            @ [\<lparr>p_r = 255, p_g = 255, p_b = 255\<rparr>])"
    using palette3x1 by simp
  from encodeBMP4Bit_ok [OF this, of False] obtain bmp where
    e: "encodeBMP4Bit ?img False = Inr bmp" by blast
  have y: "0 < height ?img" by simp
  have k1: "1 < (width ?img + 1) div 2" by simp
  have k0: "0 < (width ?img + 1) div 2" by simp
  from nibble_packing [OF e y k1]
  have "unat (bmp ! (54 + 16 * 4 + 0 * rowSize 4 3 + 1)) AND 0xf = 0"
    by (auto simp: Let_def)
  moreover from nibble_packing [OF e y k0] obtain colorArray d where
    i: "indexSource ?img False colorArray (findClosestColor colorArray) = Inr d"
    and n: "unat (bmp ! (54 + 16 * 4 + 0 * rowSize 4 3 + 0)) AND 0xf
            = unat (assignIndices d 3 1 (findClosestColor colorArray) ! 1)"
    by (auto simp: Let_def)
  moreover have "assignIndices d 3 1 (findClosestColor colorArray) ! (0 * 3 + 1) = 0"
  proof (rule assignIndices_transparent)
    from i have "d = data ?img" by (simp add: indexSource_def)
    then show "d ! ((0 * 3 + 1) * 4 + 3) < 128" by simp
  qed simp_all
  ultimately show ?thesis using e by auto
qed

end
